theory Spec2Isabelle
  imports Complex_Main "HOL-Library.Sublist" "HOL-Library.Multiset" "HOL-Library.Product_Lexorder"
    "HOL-Library.List_Lexorder"
begin

section \<open>Strings\<close>

text \<open>
  A JavaScript string is modelled as a \<^typ>\<open>string\<close>: each \<^typ>\<open>char\<close> stands for one
  UTF-16 code unit in the range U+0000 .. U+00FF.  The operations below are the
  ECMAScript ones restricted to that range (white space, lower-casing and percent
  encoding are the only ones that look at code units outside ASCII).
\<close>

definition isWhiteSpace :: "char \<Rightarrow> bool" where
  \<comment> \<open>ECMAScript WhiteSpace and LineTerminator below U+0100: TAB, LF, VT, FF, CR, SP, NBSP;
      this is what \<open>trim()\<close> strips and what \<open>\s\<close> matches.\<close>
  "isWhiteSpace c = (c \<in> set [CHR 0x09, CHR 0x0A, CHR 0x0B, CHR 0x0C, CHR 0x0D, CHR 0x20, CHR 0xA0])"

definition trimStart :: "string \<Rightarrow> string" where
  "trimStart s = dropWhile isWhiteSpace s"

definition trimEnd :: "string \<Rightarrow> string" where
  "trimEnd s = rev (dropWhile isWhiteSpace (rev s))"

definition trim :: "string \<Rightarrow> string" where
  \<comment> \<open>\<open>String.prototype.trim\<close>\<close>
  "trim s = trimEnd (trimStart s)"

fun startsWith :: "string \<Rightarrow> string \<Rightarrow> bool" where
  \<comment> \<open>\<open>s.startsWith(p)\<close> is \<open>startsWith p s\<close>\<close>
  "startsWith [] s = True"
| "startsWith (p # ps) [] = False"
| "startsWith (p # ps) (c # cs) = (p = c \<and> startsWith ps cs)"

definition endsWith :: "string \<Rightarrow> string \<Rightarrow> bool" where
  \<comment> \<open>\<open>s.endsWith(p)\<close> is \<open>endsWith p s\<close>\<close>
  "endsWith p s = startsWith (rev p) (rev s)"

fun splitOn :: "char \<Rightarrow> string \<Rightarrow> string list" where
  \<comment> \<open>\<open>s.split(sep)\<close> for a one-character separator; the result is never empty\<close>
  "splitOn sep [] = [[]]"
| "splitOn sep (c # cs) =
     (if c = sep then [] # splitOn sep cs
      else (case splitOn sep cs of
              w # ws \<Rightarrow> (c # w) # ws
            | [] \<Rightarrow> [[c]]))"

fun joinWith :: "string \<Rightarrow> string list \<Rightarrow> string" where
  \<comment> \<open>\<open>parts.join(sep)\<close>\<close>
  "joinWith sep [] = []"
| "joinWith sep [x] = x"
| "joinWith sep (x # y # ys) = x @ sep @ joinWith sep (y # ys)"

definition replaceChar :: "char \<Rightarrow> char \<Rightarrow> string \<Rightarrow> string" where
  \<comment> \<open>\<open>s.replace(/a/g, "b")\<close> for single characters\<close>
  "replaceChar a b s = map (\<lambda>c. if c = a then b else c) s"

definition toLowerChar :: "char \<Rightarrow> char" where
  \<comment> \<open>lower-casing of one code unit below U+0100: A-Z and the Latin-1 capitals
      U+00C0 .. U+00DE (the multiplication sign U+00D7 apart) move up by 32\<close>
  "toLowerChar c =
     (let n = (of_char c :: nat) in
      if (0x41 \<le> n \<and> n \<le> 0x5A) \<or> (0xC0 \<le> n \<and> n \<le> 0xDE \<and> n \<noteq> 0xD7)
      then char_of (n + 32) else c)"

definition toLowerCase :: "string \<Rightarrow> string" where
  "toLowerCase s = map toLowerChar s"



section \<open>Documents\<close>

record DocHeading =
  heading_id :: string
  heading_level :: nat
  heading_text :: string

record DocRecord =
  relPath :: string
  slug :: "string list"
  title :: string
  description :: string
  date :: string
  contentHtml :: string
  headings :: "DocHeading list"

subsection \<open>findDocBySlug\<close>

definition slugGiven :: "string list option \<Rightarrow> bool" where
  \<comment> \<open>the truthiness of \<open>slug?.length\<close>: the argument is present and not empty\<close>
  "slugGiven arg = (case arg of None \<Rightarrow> False | Some s \<Rightarrow> s \<noteq> [])"

definition findDocBySlug :: "DocRecord list \<Rightarrow> string list option \<Rightarrow> DocRecord option" where
  "findDocBySlug docs arg =
     (if docs = [] then None
      else if slugGiven arg then
        (let key = joinWith ''/'' (the arg)
         in find (\<lambda>doc. joinWith ''/'' (slug doc) = key) docs)
      else
        (case find (\<lambda>doc. relPath doc = ''getting-started/welcome.md'') docs of
           Some d \<Rightarrow> Some d
         | None \<Rightarrow>
            (case find (\<lambda>doc. endsWith ''/README.md'' (relPath doc)) docs of
               Some d \<Rightarrow> Some d
             | None \<Rightarrow> (case docs of d # _ \<Rightarrow> Some d | [] \<Rightarrow> None))))"

definition isWelcome :: "DocRecord \<Rightarrow> bool" where
  "isWelcome doc = (relPath doc = ''getting-started/welcome.md'')"

definition isReadme :: "DocRecord \<Rightarrow> bool" where
  "isReadme doc = endsWith ''/README.md'' (relPath doc)"

definition hasKey :: "string list \<Rightarrow> DocRecord \<Rightarrow> bool" where
  "hasKey key doc = (joinWith ''/'' (slug doc) = joinWith ''/'' key)"

definition firstWith :: "('a \<Rightarrow> bool) \<Rightarrow> 'a list \<Rightarrow> 'a \<Rightarrow> bool" where
  \<comment> \<open>\<open>d\<close> is the first element of the list, in list order, that satisfies \<open>P\<close>\<close>
  "firstWith P xs d =
     (\<exists>i < length xs. xs ! i = d \<and> P d \<and> (\<forall>j < i. \<not> P (xs ! j)))"

definition docA :: DocRecord where
  "docA = \<lparr>relPath = ''a.md'', slug = [''a''], title = ''A'', description = [], date = [],
           contentHtml = [], headings = []\<rparr>"

definition docReadme :: DocRecord where
  "docReadme = \<lparr>relPath = ''guide/README.md'', slug = [''guide'', ''README''],
           title = ''Guide'', description = [], date = [], contentHtml = [], headings = []\<rparr>"

definition docWelcome :: DocRecord where
  "docWelcome = \<lparr>relPath = ''getting-started/welcome.md'',
           slug = [''getting-started'', ''welcome''], title = ''Welcome'', description = [],
           date = [], contentHtml = [], headings = []\<rparr>"

lemma find_firstWith: "find P xs = Some d \<longleftrightarrow> firstWith P xs d"
  unfolding firstWith_def find_Some_iff by auto

lemma find_None_set: "find P xs = None \<longleftrightarrow> (\<forall>x \<in> set xs. \<not> P x)"
  by (induction xs) auto

lemma find_cases:
  "(\<exists>d. find P xs = Some d \<and> firstWith P xs d) \<or> (find P xs = None \<and> (\<forall>x \<in> set xs. \<not> P x))"
proof (cases "find P xs")
  case None
  then show ?thesis by (simp add: find_None_set)
next
  case (Some d)
  then have "firstWith P xs d" by (simp add: find_firstWith)
  with Some show ?thesis by blast
qed

lemma findDocBySlug_default:
  "findDocBySlug docs (Some []) =
     (case find isWelcome docs of
        Some d \<Rightarrow> Some d
      | None \<Rightarrow> (case find isReadme docs of
                   Some d \<Rightarrow> Some d
                 | None \<Rightarrow> (case docs of d # _ \<Rightarrow> Some d | [] \<Rightarrow> None)))"
proof -
  have w: "isWelcome = (\<lambda>doc. relPath doc = ''getting-started/welcome.md'')"
    by (rule ext) (simp add: isWelcome_def)
  have r: "isReadme = (\<lambda>doc. endsWith ''/README.md'' (relPath doc))"
    by (rule ext) (simp add: isReadme_def)
  show ?thesis
  proof (cases docs)
    case Nil
    then show ?thesis by (simp add: findDocBySlug_def)
  next
    case (Cons a list)
    then show ?thesis
      unfolding w r findDocBySlug_def slugGiven_def by simp
  qed
qed

lemma findDocBySlug_given:
  "key \<noteq> [] \<Longrightarrow> findDocBySlug docs (Some key) = find (hasKey key) docs"
proof -
  assume k: "key \<noteq> []"
  have h: "hasKey key = (\<lambda>doc. joinWith ''/'' (slug doc) = joinWith ''/'' key)"
    by (rule ext) (simp add: hasKey_def)
  show ?thesis
  proof (cases docs)
    case Nil
    then show ?thesis by (simp add: findDocBySlug_def)
  next
    case (Cons a list)
    then show ?thesis
      unfolding h findDocBySlug_def slugGiven_def using k by simp
  qed
qed

lemma findDocBySlug_welcome:
  "\<exists>d \<in> set docs. isWelcome d \<Longrightarrow>
     \<exists>d. findDocBySlug docs (Some []) = Some d \<and> firstWith isWelcome docs d"
  using find_cases [of isWelcome docs] by (auto simp: findDocBySlug_default)

lemma findDocBySlug_readme:
  "\<not> (\<exists>d \<in> set docs. isWelcome d) \<Longrightarrow> \<exists>d \<in> set docs. isReadme d \<Longrightarrow>
     \<exists>d. findDocBySlug docs (Some []) = Some d \<and> firstWith isReadme docs d"
  using find_cases [of isReadme docs] find_None_set [of isWelcome docs]
  by (auto simp: findDocBySlug_default)

lemma findDocBySlug_first:
  "\<not> (\<exists>d \<in> set docs. isWelcome d) \<Longrightarrow> \<not> (\<exists>d \<in> set docs. isReadme d) \<Longrightarrow> docs \<noteq> [] \<Longrightarrow>
     findDocBySlug docs (Some []) = Some (hd docs)"
  using find_None_set [of isReadme docs] find_None_set [of isWelcome docs]
  by (cases docs) (auto simp: findDocBySlug_default)

lemma findDocBySlug_match:
  "key \<noteq> [] \<Longrightarrow> \<exists>d \<in> set docs. hasKey key d \<Longrightarrow>
     \<exists>d. findDocBySlug docs (Some key) = Some d \<and> firstWith (hasKey key) docs d"
  using find_cases [of "hasKey key" docs] by (auto simp: findDocBySlug_given)

lemma findDocBySlug_no_match:
  "key \<noteq> [] \<Longrightarrow> \<not> (\<exists>d \<in> set docs. hasKey key d) \<Longrightarrow> findDocBySlug docs (Some key) = None"
  using find_None_set [of "hasKey key" docs] by (auto simp: findDocBySlug_given)

text \<open>
  Claim C8.  With an empty or absent slug, \<open>findDocBySlug\<close> returns the (first) document
  whose \<open>relPath\<close> is \<open>getting-started/welcome.md\<close> if there is one, else the (first)
  document whose \<open>relPath\<close> ends with \<open>/README.md\<close>, else the first document of the list,
  and null when the list is empty.  With a non-empty slug it returns the (first) document
  whose slash-joined slug equals the slash-joined argument, and null when there is none.
\<close>

theorem findDocBySlug_contract:
  "findDocBySlug docs None = findDocBySlug docs (Some []) \<and>
   findDocBySlug [] arg = None \<and>
   ((\<exists>d \<in> set docs. isWelcome d) \<longrightarrow>
      (\<exists>d. findDocBySlug docs (Some []) = Some d \<and> firstWith isWelcome docs d)) \<and>
   (\<not> (\<exists>d \<in> set docs. isWelcome d) \<and> (\<exists>d \<in> set docs. isReadme d) \<longrightarrow>
      (\<exists>d. findDocBySlug docs (Some []) = Some d \<and> firstWith isReadme docs d)) \<and>
   (\<not> (\<exists>d \<in> set docs. isWelcome d) \<and> \<not> (\<exists>d \<in> set docs. isReadme d) \<and> docs \<noteq> [] \<longrightarrow>
      findDocBySlug docs (Some []) = Some (hd docs)) \<and>
   (key \<noteq> [] \<and> (\<exists>d \<in> set docs. hasKey key d) \<longrightarrow>
      (\<exists>d. findDocBySlug docs (Some key) = Some d \<and> firstWith (hasKey key) docs d)) \<and>
   (key \<noteq> [] \<and> \<not> (\<exists>d \<in> set docs. hasKey key d) \<longrightarrow>
      findDocBySlug docs (Some key) = None)"
proof (intro conjI impI)
  show "findDocBySlug docs None = findDocBySlug docs (Some [])"
    by (simp add: findDocBySlug_def slugGiven_def)
  show "findDocBySlug [] arg = None"
    by (simp add: findDocBySlug_def)
qed (blast intro: findDocBySlug_welcome findDocBySlug_readme findDocBySlug_first
      findDocBySlug_match findDocBySlug_no_match)+

theorem findDocBySlug_contract_witness:
  "(\<exists>d \<in> set [docA, docReadme, docWelcome]. isWelcome d) \<and>
   findDocBySlug [docA, docReadme, docWelcome] (Some []) = Some docWelcome \<and>
   firstWith isWelcome [docA, docReadme, docWelcome] docWelcome \<and>
   \<not> (\<exists>d \<in> set [docA, docReadme]. isWelcome d) \<and> (\<exists>d \<in> set [docA, docReadme]. isReadme d) \<and>
   findDocBySlug [docA, docReadme] None = Some docReadme \<and>
   firstWith isReadme [docA, docReadme] docReadme \<and>
   \<not> (\<exists>d \<in> set [docA]. isReadme d) \<and>
   findDocBySlug [docA] None = Some docA \<and>
   (\<exists>d \<in> set [docA, docReadme]. hasKey [''guide'', ''README''] d) \<and>
   findDocBySlug [docA, docReadme] (Some [''guide'', ''README'']) = Some docReadme \<and>
   firstWith (hasKey [''guide'', ''README'']) [docA, docReadme] docReadme \<and>
   \<not> (\<exists>d \<in> set [docA, docReadme]. hasKey [''guide''] d) \<and>
   findDocBySlug [docA, docReadme] (Some [''guide'']) = None"
proof -
  note defs = isWelcome_def isReadme_def hasKey_def endsWith_def docA_def docReadme_def
    docWelcome_def
  have w: "\<exists>d \<in> set [docA, docReadme, docWelcome]. isWelcome d"
    by (simp add: defs)
  have nw: "\<not> (\<exists>d \<in> set [docA, docReadme]. isWelcome d)"
    by (simp add: defs)
  have r: "\<exists>d \<in> set [docA, docReadme]. isReadme d"
    by (simp add: defs)
  have nw1: "\<not> (\<exists>d \<in> set [docA]. isWelcome d)"
    by (simp add: defs)
  have nr1: "\<not> (\<exists>d \<in> set [docA]. isReadme d)"
    by (simp add: defs)
  have k: "\<exists>d \<in> set [docA, docReadme]. hasKey [''guide'', ''README''] d"
    by (simp add: defs)
  have nk: "\<not> (\<exists>d \<in> set [docA, docReadme]. hasKey [''guide''] d)"
    by (simp add: defs)
  have e1: "findDocBySlug [docA, docReadme, docWelcome] (Some []) = Some docWelcome"
    by (simp add: findDocBySlug_def slugGiven_def defs)
  have e2: "findDocBySlug [docA, docReadme] (Some []) = Some docReadme"
    by (simp add: findDocBySlug_def slugGiven_def defs)
  have e3: "findDocBySlug [docA, docReadme] (Some [''guide'', ''README'']) = Some docReadme"
    by (simp add: findDocBySlug_def slugGiven_def defs)
  from findDocBySlug_contract [of "[docA, docReadme, docWelcome]" None "[''guide'']"] w e1
  have c1: "firstWith isWelcome [docA, docReadme, docWelcome] docWelcome"
    by auto
  from findDocBySlug_contract [of "[docA, docReadme]" None "[''guide'', ''README'']"] nw r k e2 e3
  have c2: "findDocBySlug [docA, docReadme] None = Some docReadme"
    and c3: "firstWith isReadme [docA, docReadme] docReadme"
    and c4: "firstWith (hasKey [''guide'', ''README'']) [docA, docReadme] docReadme"
    by auto
  from findDocBySlug_contract [of "[docA]" None "[''guide'']"] nw1 nr1
  have c5: "findDocBySlug [docA] None = Some docA"
    by auto
  from findDocBySlug_contract [of "[docA, docReadme]" None "[''guide'']"] nk
  have c6: "findDocBySlug [docA, docReadme] (Some [''guide'']) = None"
    by auto
  from w nw r nr1 k nk e1 e3 c1 c2 c3 c4 c5 c6 show ?thesis
    by (intro conjI)
qed



section \<open>Path helpers\<close>

definition toPosixPath :: "string \<Rightarrow> string" where
  "toPosixPath filePath = replaceChar (CHR 0x5C) CHR ''/'' filePath"

definition hexDigit :: "nat \<Rightarrow> char" where
  "hexDigit n = (if n < 10 then char_of (48 + n) else char_of (55 + n))"

definition percentByte :: "nat \<Rightarrow> string" where
  "percentByte n = [CHR ''%'', hexDigit (n div 16), hexDigit (n mod 16)]"

definition isUriUnreserved :: "char \<Rightarrow> bool" where
  \<comment> \<open>the characters \<open>encodeURIComponent\<close> leaves alone: ASCII letters, digits and
      \<open>- _ . ! ~ * ' ( )\<close>\<close>
  "isUriUnreserved c =
     (let n = (of_char c :: nat) in
      (0x41 \<le> n \<and> n \<le> 0x5A) \<or> (0x61 \<le> n \<and> n \<le> 0x7A) \<or> (0x30 \<le> n \<and> n \<le> 0x39) \<or>
      c \<in> set [CHR ''-'', CHR ''_'', CHR ''.'', CHR ''!'', CHR ''~'', CHR ''*'', CHR 0x27,
                 CHR ''('', CHR '')''])"

definition encodeURIChar :: "char \<Rightarrow> string" where
  \<comment> \<open>the UTF-8 bytes of a code unit below U+0100, percent-encoded\<close>
  "encodeURIChar c =
     (let n = (of_char c :: nat) in
      if isUriUnreserved c then [c]
      else if n < 128 then percentByte n
      else percentByte (192 + n div 64) @ percentByte (128 + n mod 64))"

definition encodeURIComponent :: "string \<Rightarrow> string" where
  "encodeURIComponent s = concat (map encodeURIChar s)"

definition encodePath :: "string \<Rightarrow> string" where
  "encodePath pathname = joinWith ''/'' (map encodeURIComponent (splitOn CHR ''/'' pathname))"

fun indexOf :: "char \<Rightarrow> string \<Rightarrow> nat option" where
  \<comment> \<open>\<open>s.indexOf(c)\<close>, with \<open>None\<close> for -1\<close>
  "indexOf c [] = None"
| "indexOf c (x # xs) = (if x = c then Some 0 else map_option Suc (indexOf c xs))"

definition splitPathAndSuffix :: "string \<Rightarrow> string \<times> string" where
  \<comment> \<open>the pair is (pathname, suffix)\<close>
  "splitPathAndSuffix rawUrl =
     (let queryIndex = indexOf CHR ''?'' rawUrl;
          hashIndex = indexOf CHR ''#'' rawUrl;
          splitIndex = (case queryIndex of
                          None \<Rightarrow> hashIndex
                        | Some q \<Rightarrow> (case hashIndex of None \<Rightarrow> Some q | Some h \<Rightarrow> Some (min q h)))
      in case splitIndex of
           None \<Rightarrow> (rawUrl, [])
         | Some i \<Rightarrow> (take i rawUrl, drop i rawUrl))"

section \<open>Link resolution\<close>

definition stripDocExtension :: "string \<Rightarrow> string" where
  \<comment> \<open>\<open>filePath.replace(/\.(md|mdx)$/i, "")\<close>\<close>
  "stripDocExtension filePath =
     (if endsWith ''.md'' (toLowerCase filePath) then take (length filePath - 3) filePath
      else if endsWith ''.mdx'' (toLowerCase filePath) then take (length filePath - 4) filePath
      else filePath)"

definition toDocHref :: "string list \<Rightarrow> string" where
  "toDocHref sl = (if sl = [] then ''/docs'' else ''/docs/'' @ encodePath (joinWith ''/'' sl))"

fun walkSegments :: "string list \<Rightarrow> string list \<Rightarrow> string list option" where
  \<comment> \<open>the loop of \<open>resolveDocsRelativePath\<close> over \<open>parts\<close>, with \<open>safeParts\<close> as the
      accumulator; \<open>None\<close> is the \<open>return null\<close> inside the loop (a \<open>..\<close> met with
      nothing left to pop)\<close>
  "walkSegments [] safeParts = Some safeParts"
| "walkSegments (segment # rest) safeParts =
     (if segment = [] \<or> segment = ''.'' then walkSegments rest safeParts
      else if segment = ''..'' then
        (if safeParts = [] then None else walkSegments rest (butlast safeParts))
      else walkSegments rest (safeParts @ [segment]))"

definition pathParts :: "string \<Rightarrow> string \<Rightarrow> string list" where
  \<comment> \<open>the constant \<open>parts\<close> of \<open>resolveDocsRelativePath\<close>\<close>
  "pathParts currentDocPath rawPath =
     (let normalizedInput = replaceChar (CHR 0x5C) CHR ''/'' rawPath;
          currentDir = butlast (splitOn CHR ''/'' currentDocPath)
      in if startsWith ''/'' normalizedInput
         then splitOn CHR ''/'' (drop 1 normalizedInput)
         else currentDir @ splitOn CHR ''/'' normalizedInput)"

definition resolveDocsRelativePath :: "string \<Rightarrow> string \<Rightarrow> string option" where
  "resolveDocsRelativePath currentDocPath rawPath =
     (case walkSegments (pathParts currentDocPath rawPath) [] of
        None \<Rightarrow> None
      | Some safeParts \<Rightarrow> if safeParts = [] then None else Some (joinWith ''/'' safeParts))"

definition asciiLowerChar :: "char \<Rightarrow> char" where
  "asciiLowerChar c =
     (let n = (of_char c :: nat) in if 0x41 \<le> n \<and> n \<le> 0x5A then char_of (n + 32) else c)"

definition isExternalHref :: "string \<Rightarrow> bool" where
  \<comment> \<open>\<open>/^(https?:|mailto:|tel:|#|data:|\/\/)/i.test(href)\<close>; the flag \<open>i\<close> folds ASCII
      letters only\<close>
  "isExternalHref href =
     (\<exists>p \<in> set [''http:'', ''https:'', ''mailto:'', ''tel:'', ''#'', ''data:'', ''//''].
        startsWith p (map asciiLowerChar href))"

definition resolveMarkdownHref :: "string \<Rightarrow> string \<Rightarrow> string set \<Rightarrow> string" where
  "resolveMarkdownHref href currentDocPath docPathSet =
     (if href = [] then href
      else if isExternalHref href then href
      else
        (let (pathname, suffix) = splitPathAndSuffix href in
         if pathname = [] then href
         else
           (case resolveDocsRelativePath currentDocPath pathname of
              None \<Rightarrow> href
            | Some resolvedPath \<Rightarrow>
               (if resolvedPath = [] then href
                else
                  (case find (\<lambda>ext. endsWith ext (toLowerCase resolvedPath)) [''.md'', ''.mdx''] of
                     Some extension \<Rightarrow>
                       toDocHref (splitOn CHR ''/''
                         (take (length resolvedPath - length extension) resolvedPath)) @ suffix
                   | None \<Rightarrow>
                      (if resolvedPath @ ''.md'' \<in> docPathSet
                       then toDocHref (splitOn CHR ''/'' resolvedPath) @ suffix
                       else if resolvedPath @ ''.mdx'' \<in> docPathSet
                       then toDocHref (splitOn CHR ''/'' resolvedPath) @ suffix
                       else ''/api/docs-asset/'' @ encodePath resolvedPath @ suffix))))))"














lemma resolveMarkdownHref_unresolved:
  assumes "resolveDocsRelativePath cur (fst (splitPathAndSuffix href)) = None"
  shows "resolveMarkdownHref href cur S = href"
proof -
  obtain pn sf where ps: "splitPathAndSuffix href = (pn, sf)"
    by (cases "splitPathAndSuffix href")
  with assms have "resolveDocsRelativePath cur pn = None"
    by simp
  with ps show ?thesis
    unfolding resolveMarkdownHref_def by simp
qed









text \<open>
  Claim C10.  When the walk over the segments of the href's path ends with nothing kept (no
  \<open>..\<close> underflow has occurred, but every segment was empty, \<open>.\<close> or cancelled by a
  \<open>..\<close>), \<open>resolveDocsRelativePath\<close> fails all the same and \<open>resolveMarkdownHref\<close>
  returns the href as it was given; \<open>/\<close>, \<open>.\<close> and \<open>./\<close> referenced from a root-level
  document are such hrefs.
\<close>

theorem resolveMarkdownHref_no_segments:
  "walkSegments (pathParts currentDocPath (fst (splitPathAndSuffix href))) [] = Some [] \<longrightarrow>
     resolveDocsRelativePath currentDocPath (fst (splitPathAndSuffix href)) = None \<and>
     resolveMarkdownHref href currentDocPath docPathSet = href"
proof (intro conjI impI)
  assume "walkSegments (pathParts currentDocPath (fst (splitPathAndSuffix href))) [] = Some []"
  then show r: "resolveDocsRelativePath currentDocPath (fst (splitPathAndSuffix href)) = None"
    by (simp add: resolveDocsRelativePath_def)
  then show "resolveMarkdownHref href currentDocPath docPathSet = href"
    by (rule resolveMarkdownHref_unresolved)
qed

lemma walk_root_hrefs:
  "walkSegments (pathParts ''index.md'' (fst (splitPathAndSuffix ''/''))) [] = Some []"
  "walkSegments (pathParts ''index.md'' (fst (splitPathAndSuffix ''.''))) [] = Some []"
  "walkSegments (pathParts ''index.md'' (fst (splitPathAndSuffix ''./''))) [] = Some []"
  by (simp_all add: splitPathAndSuffix_def pathParts_def replaceChar_def)

theorem resolveMarkdownHref_no_segments_witness:
  "\<not> isExternalHref ''/'' \<and> \<not> isExternalHref ''.'' \<and> \<not> isExternalHref ''./'' \<and>
   walkSegments (pathParts ''index.md'' (fst (splitPathAndSuffix ''/''))) [] = Some [] \<and>
   walkSegments (pathParts ''index.md'' (fst (splitPathAndSuffix ''.''))) [] = Some [] \<and>
   walkSegments (pathParts ''index.md'' (fst (splitPathAndSuffix ''./''))) [] = Some [] \<and>
   resolveMarkdownHref ''/'' ''index.md'' {''index.md''} = ''/'' \<and>
   resolveMarkdownHref ''.'' ''index.md'' {''index.md''} = ''.'' \<and>
   resolveMarkdownHref ''./'' ''index.md'' {''index.md''} = ''./''"
proof -
  have e: "\<not> isExternalHref ''/''" "\<not> isExternalHref ''.''" "\<not> isExternalHref ''./''"
    by (simp_all add: isExternalHref_def asciiLowerChar_def)
  from resolveMarkdownHref_no_segments [of "''index.md''" "''/''" "{''index.md''}"]
    resolveMarkdownHref_no_segments [of "''index.md''" "''.''" "{''index.md''}"]
    resolveMarkdownHref_no_segments [of "''index.md''" "''./''" "{''index.md''}"]
    walk_root_hrefs e
  show ?thesis by simp
qed



section \<open>Slugs and headings\<close>


































section \<open>Obsidian embeds\<close>

definition matchEmbed :: "string \<Rightarrow> (string \<times> string option \<times> string) option" where
  \<comment> \<open>one attempt of \<open>/!\[\[([^\]\|]+?)(?:\|([^\]]+))?\]\]/\<close> at the start of the text:
      the two captures (raw target, raw alt when the group took part) and the text after
      the match.  The target class excludes \<open>]\<close> and \<open>|\<close> and what follows the target must
      be one of them, so the lazy target can only end at its maximal run; the alt class
      excludes \<open>]\<close> and \<open>]]\<close> must follow, so the greedy alt can only be its maximal run.\<close>
  "matchEmbed s =
     (if startsWith ''![['' s then
        (let r = drop 3 s;
             rawTarget = takeWhile (\<lambda>c. c \<noteq> CHR '']'' \<and> c \<noteq> CHR ''|'') r;
             r1 = dropWhile (\<lambda>c. c \<noteq> CHR '']'' \<and> c \<noteq> CHR ''|'') r
         in if rawTarget = [] then None
            else if startsWith '']]'' r1 then Some (rawTarget, None, drop 2 r1)
            else if startsWith ''|'' r1 then
              (let r2 = drop 1 r1;
                   rawAlt = takeWhile (\<lambda>c. c \<noteq> CHR '']'') r2;
                   r3 = dropWhile (\<lambda>c. c \<noteq> CHR '']'') r2
               in if rawAlt \<noteq> [] \<and> startsWith '']]'' r3
                  then Some (rawTarget, Some rawAlt, drop 2 r3)
                  else None)
            else None)
      else None)"

definition embedTarget :: "string \<Rightarrow> string" where
  \<comment> \<open>\<open>rawTarget.trim().replace(/\\/g, "/").replace(/^\/+/, "").replace(/^\.\//, "")\<close>\<close>
  "embedTarget rawTarget =
     (let t = dropWhile (\<lambda>c. c = CHR ''/'') (replaceChar (CHR 0x5C) CHR ''/'' (trim rawTarget))
      in if startsWith ''./'' t then drop 2 t else t)"

definition embedAlt :: "string option \<Rightarrow> string" where
  \<comment> \<open>\<open>(rawAlt ?? "").trim()\<close>\<close>
  "embedAlt rawAlt = trim (case rawAlt of None \<Rightarrow> [] | Some a \<Rightarrow> a)"

definition embedReplacement :: "bool \<Rightarrow> string \<Rightarrow> string option \<Rightarrow> string" where
  "embedReplacement rootRelative rawTarget rawAlt =
     (if rootRelative
      then ''!['' @ embedAlt rawAlt @ ''](/'' @ embedTarget rawTarget @ '')''
      else ''!['' @ embedAlt rawAlt @ '']('' @ embedTarget rawTarget @ '')'')"

lemma startsWith_length: "startsWith p s \<Longrightarrow> length p \<le> length s"
  by (induction p s rule: startsWith.induct) auto

lemma startsWith_append: "startsWith p (p @ s)"
  by (induction p) auto

lemma startsWith_iff: "startsWith p s \<longleftrightarrow> (\<exists>r. s = p @ r)"
proof (induction p s rule: startsWith.induct)
  case (1 s)
  then show ?case by simp
next
  case (2 p ps)
  then show ?case by simp
next
  case (3 p ps c cs)
  then show ?case by auto
qed

lemma matchEmbed_shorter:
  assumes "matchEmbed s = Some (t, a, rest)"
  shows "length rest < length s"
proof -
  let ?P = "\<lambda>c. c \<noteq> CHR '']'' \<and> c \<noteq> CHR ''|''"
  let ?Q = "\<lambda>c. c \<noteq> CHR '']''"
  from assms have sw: "startsWith ''![['' s"
    by (auto simp: matchEmbed_def split: if_splits)
  then have len: "3 \<le> length s"
    using startsWith_length [of "''![[''" s] by simp
  have d1: "length (dropWhile ?P (drop 3 s)) \<le> length s - 3"
    using length_dropWhile_le [of ?P "drop 3 s"] by simp
  have d2: "length (dropWhile ?Q (drop 1 (dropWhile ?P (drop 3 s)))) \<le> length s - 3"
    using length_dropWhile_le [of ?Q "drop 1 (dropWhile ?P (drop 3 s))"] d1 by simp
  from assms sw have "rest = drop 2 (dropWhile ?P (drop 3 s)) \<or>
      rest = drop 2 (dropWhile ?Q (drop 1 (dropWhile ?P (drop 3 s))))"
    by (auto simp: matchEmbed_def Let_def split: if_splits)
  with d1 d2 len show ?thesis
    by auto
qed

function preprocessObsidianMarkdown :: "string \<Rightarrow> bool \<Rightarrow> string" where
  \<comment> \<open>\<open>markdown.replace(/.../g, callback)\<close>: the scan tries a match at every position from
      the left, and goes on behind a match\<close>
  "preprocessObsidianMarkdown [] rootRelative = []"
| "preprocessObsidianMarkdown (c # cs) rootRelative =
     (case matchEmbed (c # cs) of
        Some (rawTarget, rawAlt, rest) \<Rightarrow>
          embedReplacement rootRelative rawTarget rawAlt @
          preprocessObsidianMarkdown rest rootRelative
      | None \<Rightarrow> c # preprocessObsidianMarkdown cs rootRelative)"
  by pat_completeness auto
termination
  by (relation "measure (\<lambda>(s, r). length s)") (auto dest: matchEmbed_shorter)

definition specEmbedTarget :: "string \<Rightarrow> string" where
  \<comment> \<open>the target as the specification words it: trimmed, backslashes turned into
      slashes, then a single leading slash or a leading \<open>./\<close> stripped\<close>
  "specEmbedTarget rawTarget =
     (let t = replaceChar (CHR 0x5C) CHR ''/'' (trim rawTarget)
      in if startsWith ''/'' t then drop 1 t
         else if startsWith ''./'' t then drop 2 t
         else t)"

lemma matchEmbed_plain:
  assumes "t \<noteq> []" "CHR '']'' \<notin> set t" "CHR ''|'' \<notin> set t"
  shows "matchEmbed (''![['' @ t @ '']]'' @ post) = Some (t, None, post)"
proof -
  let ?P = "\<lambda>c. c \<noteq> CHR '']'' \<and> c \<noteq> CHR ''|''"
  have all: "\<forall>c \<in> set t. ?P c"
    using assms by auto
  have tk: "takeWhile ?P (t @ CHR '']'' # CHR '']'' # post) = t"
    using all by (simp add: takeWhile_tail)
  have dr: "dropWhile ?P (t @ CHR '']'' # CHR '']'' # post) = CHR '']'' # CHR '']'' # post"
    using all by (simp add: dropWhile_append3)
  show ?thesis
    using assms(1) by (simp add: matchEmbed_def tk dr)
qed

lemma matchEmbed_alt:
  assumes "t \<noteq> []" "CHR '']'' \<notin> set t" "CHR ''|'' \<notin> set t" "a \<noteq> []" "CHR '']'' \<notin> set a"
  shows "matchEmbed (''![['' @ t @ ''|'' @ a @ '']]'' @ post) = Some (t, Some a, post)"
proof -
  let ?P = "\<lambda>c. c \<noteq> CHR '']'' \<and> c \<noteq> CHR ''|''"
  let ?Q = "\<lambda>c. c \<noteq> CHR '']''"
  have all: "\<forall>c \<in> set t. ?P c" and alla: "\<forall>c \<in> set a. ?Q c"
    using assms by auto
  have tk: "takeWhile ?P (t @ CHR ''|'' # a @ CHR '']'' # CHR '']'' # post) = t"
    using all by (simp add: takeWhile_tail)
  have dr: "dropWhile ?P (t @ CHR ''|'' # a @ CHR '']'' # CHR '']'' # post) =
      CHR ''|'' # a @ CHR '']'' # CHR '']'' # post"
    using all by (simp add: dropWhile_append3)
  have tk2: "takeWhile ?Q (a @ CHR '']'' # CHR '']'' # post) = a"
    using alla by (simp add: takeWhile_tail)
  have dr2: "dropWhile ?Q (a @ CHR '']'' # CHR '']'' # post) = CHR '']'' # CHR '']'' # post"
    using alla by (simp add: dropWhile_append3)
  show ?thesis
    using assms(1,4) by (simp add: matchEmbed_def tk dr tk2 dr2)
qed

lemma matchEmbed_shape:
  assumes "matchEmbed s = Some (t, a, rest)"
  shows "s = ''![['' @ t @ (case a of None \<Rightarrow> [] | Some x \<Rightarrow> ''|'' @ x) @ '']]'' @ rest \<and>
         t \<noteq> [] \<and> CHR '']'' \<notin> set t \<and> CHR ''|'' \<notin> set t \<and>
         (case a of None \<Rightarrow> True | Some x \<Rightarrow> x \<noteq> [] \<and> CHR '']'' \<notin> set x)"
proof -
  let ?P = "\<lambda>c. c \<noteq> CHR '']'' \<and> c \<noteq> CHR ''|''"
  let ?Q = "\<lambda>c. c \<noteq> CHR '']''"
  from assms have sw: "startsWith ''![['' s"
    by (auto simp: matchEmbed_def split: if_splits)
  then obtain r where s: "s = ''![['' @ r"
    using startsWith_iff by blast
  then have r: "drop 3 s = r" by simp
  define r1 where "r1 = dropWhile ?P r"
  have t: "t = takeWhile ?P r" and tne: "t \<noteq> []"
    using assms sw by (auto simp: matchEmbed_def Let_def r split: if_splits)
  have rsplit: "r = t @ r1"
    by (simp add: t r1_def)
  have tset: "CHR '']'' \<notin> set t" "CHR ''|'' \<notin> set t"
    using set_takeWhileD [of _ ?P r] unfolding t by blast+
  show ?thesis
  proof (cases "startsWith '']]'' r1")
    case True
    then obtain q where q: "r1 = '']]'' @ q"
      using startsWith_iff by blast
    with True assms sw tne have "a = None" "rest = q"
      by (auto simp: matchEmbed_def Let_def r t r1_def split: if_splits)
    with s rsplit q tne tset show ?thesis by simp
  next
    case False
    with assms sw tne have bar: "startsWith ''|'' r1"
      by (auto simp: matchEmbed_def Let_def r t r1_def split: if_splits)
    then obtain r2 where r2: "r1 = ''|'' @ r2"
      using startsWith_iff by blast
    then have d1: "drop (Suc 0) r1 = r2" by simp
    define x where "x = takeWhile ?Q r2"
    define r3 where "r3 = dropWhile ?Q r2"
    from False bar assms sw tne have a: "a = Some x" and xne: "x \<noteq> []"
      and sw3: "startsWith '']]'' r3" and rest: "rest = drop 2 r3"
      by (auto simp: matchEmbed_def Let_def r t r1_def [symmetric] d1 x_def r3_def
          split: if_splits)
    from sw3 obtain q where q: "r3 = '']]'' @ q"
      using startsWith_iff by blast
    have r2split: "r2 = x @ r3"
      by (simp add: x_def r3_def)
    have xset: "CHR '']'' \<notin> set x"
      using set_takeWhileD [of _ ?Q r2] unfolding x_def by blast
    from s rsplit r2 r2split q rest a xne xset tne tset show ?thesis
      by simp
  qed
qed

lemma preprocess_no_match:
  "\<forall>i < length pre. matchEmbed (drop i (pre @ rest)) = None \<Longrightarrow>
     preprocessObsidianMarkdown (pre @ rest) rr = pre @ preprocessObsidianMarkdown rest rr"
proof (induction pre)
  case Nil
  then show ?case by simp
next
  case (Cons c pre)
  from Cons.prems have here: "matchEmbed ((c # pre) @ rest) = None"
    by (metis drop0 length_greater_0_conv list.distinct(1))
  have later: "\<forall>i < length pre. matchEmbed (drop i (pre @ rest)) = None"
  proof (intro allI impI)
    fix i assume "i < length pre"
    then have "Suc i < length (c # pre)" by simp
    with Cons.prems have "matchEmbed (drop (Suc i) ((c # pre) @ rest)) = None"
      by blast
    then show "matchEmbed (drop i (pre @ rest)) = None" by simp
  qed
  from here Cons.IH [OF later] show ?case
    by simp
qed

lemma preprocess_match:
  "matchEmbed s = Some (t, a, rest) \<Longrightarrow>
     preprocessObsidianMarkdown s rr =
       embedReplacement rr t a @ preprocessObsidianMarkdown rest rr"
  by (cases s) (simp_all add: matchEmbed_def)

lemma preprocess_example:
  "preprocessObsidianMarkdown ''![[diagram.png|A diagram]]'' True = ''![A diagram](/diagram.png)''"
  by code_simp

text \<open>
  Claim C3, as the code has it.  Text in which no embed starts passes through unchanged
  up to the next embed.  An embed \<open>![[target]]\<close> or \<open>![[target|alt]]\<close> (target: one or more
  characters other than \<open>]\<close> and \<open>|\<close>; alt: one or more characters other than \<open>]\<close>) is
  replaced by \<open>![alt](target')\<close>, with \<open>/\<close> in front of \<open>target'\<close> when \<open>rootRelative\<close> is
  set and the alt trimmed, and the scan goes on behind it.  \<open>target'\<close> is the target
  trimmed, with backslashes turned into slashes, then all leading slashes stripped, then
  one leading \<open>./\<close> stripped.  Every match has one of the two shapes.  In particular
  \<open>![[diagram.png|A diagram]]\<close> with \<open>rootRelative\<close> set becomes
  \<open>![A diagram](/diagram.png)\<close>.
\<close>

theorem preprocessObsidianMarkdown_rewrites:
  "((\<forall>i < length pre. matchEmbed (drop i (pre @ rest)) = None) \<longrightarrow>
      preprocessObsidianMarkdown (pre @ rest) rr = pre @ preprocessObsidianMarkdown rest rr) \<and>
   (t \<noteq> [] \<and> CHR '']'' \<notin> set t \<and> CHR ''|'' \<notin> set t \<longrightarrow>
      preprocessObsidianMarkdown (''![['' @ t @ '']]'' @ post) rr =
        ''![]('' @ (if rr then ''/'' else []) @ embedTarget t @ '')'' @
        preprocessObsidianMarkdown post rr) \<and>
   (t \<noteq> [] \<and> CHR '']'' \<notin> set t \<and> CHR ''|'' \<notin> set t \<and> a \<noteq> [] \<and> CHR '']'' \<notin> set a \<longrightarrow>
      preprocessObsidianMarkdown (''![['' @ t @ ''|'' @ a @ '']]'' @ post) rr =
        ''!['' @ trim a @ '']('' @ (if rr then ''/'' else []) @ embedTarget t @ '')'' @
        preprocessObsidianMarkdown post rr) \<and>
   (matchEmbed s = Some (t', a', rest') \<longrightarrow>
      s = ''![['' @ t' @ (case a' of None \<Rightarrow> [] | Some x \<Rightarrow> ''|'' @ x) @ '']]'' @ rest' \<and>
      t' \<noteq> [] \<and> CHR '']'' \<notin> set t' \<and> CHR ''|'' \<notin> set t' \<and>
      (case a' of None \<Rightarrow> True | Some x \<Rightarrow> x \<noteq> [] \<and> CHR '']'' \<notin> set x)) \<and>
   embedTarget t =
     (let u = dropWhile (\<lambda>c. c = CHR ''/'') (replaceChar (CHR 0x5C) CHR ''/'' (trim t))
      in if startsWith ''./'' u then drop 2 u else u) \<and>
   preprocessObsidianMarkdown ''![[diagram.png|A diagram]]'' True = ''![A diagram](/diagram.png)''"
proof (intro conjI)
  show "(\<forall>i < length pre. matchEmbed (drop i (pre @ rest)) = None) \<longrightarrow>
      preprocessObsidianMarkdown (pre @ rest) rr = pre @ preprocessObsidianMarkdown rest rr"
    using preprocess_no_match by blast
next
  show "t \<noteq> [] \<and> CHR '']'' \<notin> set t \<and> CHR ''|'' \<notin> set t \<longrightarrow>
      preprocessObsidianMarkdown (''![['' @ t @ '']]'' @ post) rr =
        ''![]('' @ (if rr then ''/'' else []) @ embedTarget t @ '')'' @
        preprocessObsidianMarkdown post rr"
  proof
    assume "t \<noteq> [] \<and> CHR '']'' \<notin> set t \<and> CHR ''|'' \<notin> set t"
    then have "t \<noteq> []" "CHR '']'' \<notin> set t" "CHR ''|'' \<notin> set t"
      by blast+
    then have "matchEmbed (''![['' @ t @ '']]'' @ post) = Some (t, None, post)"
      by (rule matchEmbed_plain)
    from preprocess_match [OF this, of rr]
    show "preprocessObsidianMarkdown (''![['' @ t @ '']]'' @ post) rr =
          ''![]('' @ (if rr then ''/'' else []) @ embedTarget t @ '')'' @
          preprocessObsidianMarkdown post rr"
      by (simp add: embedReplacement_def embedAlt_def trim_def trimStart_def trimEnd_def)
  qed
next
  show "t \<noteq> [] \<and> CHR '']'' \<notin> set t \<and> CHR ''|'' \<notin> set t \<and> a \<noteq> [] \<and> CHR '']'' \<notin> set a \<longrightarrow>
      preprocessObsidianMarkdown (''![['' @ t @ ''|'' @ a @ '']]'' @ post) rr =
        ''!['' @ trim a @ '']('' @ (if rr then ''/'' else []) @ embedTarget t @ '')'' @
        preprocessObsidianMarkdown post rr"
  proof
    assume "t \<noteq> [] \<and> CHR '']'' \<notin> set t \<and> CHR ''|'' \<notin> set t \<and> a \<noteq> [] \<and> CHR '']'' \<notin> set a"
    then have "t \<noteq> []" "CHR '']'' \<notin> set t" "CHR ''|'' \<notin> set t" "a \<noteq> []" "CHR '']'' \<notin> set a"
      by blast+
    then have "matchEmbed (''![['' @ t @ ''|'' @ a @ '']]'' @ post) = Some (t, Some a, post)"
      by (rule matchEmbed_alt)
    from preprocess_match [OF this, of rr]
    show "preprocessObsidianMarkdown (''![['' @ t @ ''|'' @ a @ '']]'' @ post) rr =
          ''!['' @ trim a @ '']('' @ (if rr then ''/'' else []) @ embedTarget t @ '')'' @
          preprocessObsidianMarkdown post rr"
      by (simp add: embedReplacement_def embedAlt_def)
  qed
next
  show "matchEmbed s = Some (t', a', rest') \<longrightarrow>
      s = ''![['' @ t' @ (case a' of None \<Rightarrow> [] | Some x \<Rightarrow> ''|'' @ x) @ '']]'' @ rest' \<and>
      t' \<noteq> [] \<and> CHR '']'' \<notin> set t' \<and> CHR ''|'' \<notin> set t' \<and>
      (case a' of None \<Rightarrow> True | Some x \<Rightarrow> x \<noteq> [] \<and> CHR '']'' \<notin> set x)"
    using matchEmbed_shape [of s t' a' rest'] by (rule impI)
next
  show "embedTarget t =
     (let u = dropWhile (\<lambda>c. c = CHR ''/'') (replaceChar (CHR 0x5C) CHR ''/'' (trim t))
      in if startsWith ''./'' u then drop 2 u else u)"
    by (simp add: embedTarget_def)
next
  show "preprocessObsidianMarkdown ''![[diagram.png|A diagram]]'' True =
      ''![A diagram](/diagram.png)''"
    by (rule preprocess_example)
qed

lemma no_embed_in_see:
  "\<forall>i < length ''see ''. matchEmbed (drop i (''see '' @ ''![[ /./a.png ]]'')) = None"
proof (intro allI impI)
  fix i :: nat
  assume "i < length ''see ''"
  then consider "i = 0" | "i = 1" | "i = 2" | "i = 3"
    by (auto simp: less_Suc_eq numeral_eq_Suc)
  then show "matchEmbed (drop i (''see '' @ ''![[ /./a.png ]]'')) = None"
    by cases (simp_all add: matchEmbed_def)
qed

lemma embedTarget_examples:
  "embedTarget '' /./a.png '' = ''a.png''" "embedTarget ''x.png'' = ''x.png''"
  "trim '' X '' = ''X''"
  by code_simp+

theorem preprocessObsidianMarkdown_rewrites_witness:
  "list_all (\<lambda>i. matchEmbed (drop i (''see '' @ ''![[ /./a.png ]]'')) = None) [0 ..< length ''see ''] \<and>
   preprocessObsidianMarkdown (''see '' @ ''![[ /./a.png ]]'') False = ''see ![](a.png)'' \<and>
   preprocessObsidianMarkdown (''![['' @ '' /./a.png '' @ '']]'' @ []) False = ''![](a.png)'' \<and>
   preprocessObsidianMarkdown (''![['' @ ''x.png'' @ ''|'' @ '' X '' @ '']]'' @ ''!'') True =
     ''![X](/x.png)!'' \<and>
   matchEmbed ''![[x.png| X ]]!'' = Some (''x.png'', Some '' X '', ''!'')"
proof -
  have h1: "\<forall>i < length ''see ''. matchEmbed (drop i (''see '' @ ''![[ /./a.png ]]'')) = None"
    by (rule no_embed_in_see)
  have l1: "list_all (\<lambda>i. matchEmbed (drop i (''see '' @ ''![[ /./a.png ]]'')) = None)
      [0 ..< length ''see '']"
    by code_simp
  have h2: "'' /./a.png '' \<noteq> [] \<and> CHR '']'' \<notin> set '' /./a.png '' \<and> CHR ''|'' \<notin> set '' /./a.png ''"
    by simp
  have h3: "''x.png'' \<noteq> [] \<and> CHR '']'' \<notin> set ''x.png'' \<and> CHR ''|'' \<notin> set ''x.png'' \<and>
      '' X '' \<noteq> [] \<and> CHR '']'' \<notin> set '' X ''"
    by simp
  have m: "matchEmbed ''![[x.png| X ]]!'' = Some (''x.png'', Some '' X '', ''!'')"
    by (simp add: matchEmbed_def)
  note T1 = preprocessObsidianMarkdown_rewrites
    [of "''see ''" "''![[ /./a.png ]]''" False "'' /./a.png ''" "[]" "'' X ''"
        "''![[x.png| X ]]!''" "''x.png''" "Some '' X ''" "''!''"]
  note T2 = preprocessObsidianMarkdown_rewrites
    [of "[]" "[]" True "''x.png''" "''!''" "'' X ''" "[]" "[]" None "[]"]
  have c2: "preprocessObsidianMarkdown (''![['' @ '' /./a.png '' @ '']]'' @ []) False = ''![](a.png)''"
    using T1 h2 by (simp add: embedTarget_examples)
  have c1: "preprocessObsidianMarkdown (''see '' @ ''![[ /./a.png ]]'') False = ''see ![](a.png)''"
    using T1 h1 c2 by simp
  have c3: "preprocessObsidianMarkdown (''![['' @ ''x.png'' @ ''|'' @ '' X '' @ '']]'' @ ''!'') True =
     ''![X](/x.png)!''"
  proof -
    have "preprocessObsidianMarkdown ''!'' True = ''!''"
      by code_simp
    with T2 h3 show ?thesis
      by (simp add: embedTarget_examples)
  qed
  from l1 c1 c2 c3 m show ?thesis
    by (intro conjI)
qed

theorem preprocessObsidianMarkdown_single_slash_counterexample:
  "preprocessObsidianMarkdown ''![[//a.png]]'' True = ''![](/a.png)'' \<and>
   ''![](/'' @ specEmbedTarget ''//a.png'' @ '')'' = ''![](//a.png)'' \<and>
   preprocessObsidianMarkdown ''![[//a.png]]'' True \<noteq> ''![](/'' @ specEmbedTarget ''//a.png'' @ '')''"
proof -
  have c: "preprocessObsidianMarkdown ''![[//a.png]]'' True = ''![](/a.png)''"
    by code_simp
  have s: "specEmbedTarget ''//a.png'' = ''/a.png''"
    by code_simp
  show ?thesis
    unfolding c s by simp
qed



section \<open>Front matter\<close>

datatype frontMatterValue =
    FmDate "string option"
  | FmString string
  | FmOther

text \<open>
  A value of the front-matter object \<open>data\<close>, as the parser hands it over.  \<open>FmDate\<close> is a
  \<open>Date\<close> object, represented by the string its \<open>toISOString()\<close> returns (\<open>None\<close> for an
  invalid date, on which \<open>toISOString()\<close> throws); \<open>FmString\<close> is a string; \<open>FmOther\<close> is
  anything else, \<open>undefined\<close> for a missing key included.
\<close>

datatype jsError = RangeError | TypeError





subsection \<open>Description\<close>

definition isEmphasisNoise :: "char \<Rightarrow> bool" where
  \<comment> \<open>the class \<open>[*_`>#-]\<close>\<close>
  "isEmphasisNoise c =
     (c \<in> set [CHR ''*'', CHR ''_'', CHR 0x60, CHR ''>'', CHR ''#'', CHR ''-''])"

definition isSkippedLine :: "string \<Rightarrow> bool" where
  \<comment> \<open>the four \<open>continue\<close> tests of the loop\<close>
  "isSkippedLine line =
     (startsWith ''#'' line \<or> startsWith ''!['' line \<or> startsWith ''---'' line \<or>
      startsWith [CHR 0x60, CHR 0x60, CHR 0x60] line)"

fun firstDescription :: "string list \<Rightarrow> string" where
  \<comment> \<open>the loop of \<open>getDescriptionFromContent\<close> over the trimmed, non-empty lines\<close>
  "firstDescription [] = []"
| "firstDescription (line # rest) =
     (if startsWith ''#'' line then firstDescription rest
      else if startsWith ''!['' line then firstDescription rest
      else if startsWith ''---'' line then firstDescription rest
      else if startsWith [CHR 0x60, CHR 0x60, CHR 0x60] line then firstDescription rest
      else trim (filter (\<lambda>c. \<not> isEmphasisNoise c) line))"

definition getDescriptionFromContent :: "string \<Rightarrow> string" where
  "getDescriptionFromContent content =
     firstDescription (filter (\<lambda>line. line \<noteq> []) (map trim (splitOn (CHR 0x0A) content)))"

definition docDescription :: "frontMatterValue \<Rightarrow> string \<Rightarrow> string" where
  \<comment> \<open>the constants \<open>descriptionFromMeta\<close> and \<open>description\<close> of \<open>readDocsRecursively\<close>\<close>
  "docDescription metaDescription content =
     (let descriptionFromMeta = (case metaDescription of FmString s \<Rightarrow> trim s | _ \<Rightarrow> [])
      in if descriptionFromMeta \<noteq> [] then descriptionFromMeta
         else getDescriptionFromContent content)"

definition specDescriptionFromContent :: "string \<Rightarrow> string" where
  \<comment> \<open>the fallback as the specification words it: the first line of the body that is not
      a heading, an image, a horizontal rule or a code-fence line, with the Markdown
      emphasis markers (\<open>*\<close> and \<open>_\<close>) stripped\<close>
  "specDescriptionFromContent content =
     (case find (\<lambda>line. \<not> isSkippedLine line) (splitOn (CHR 0x0A) content) of
        None \<Rightarrow> []
      | Some line \<Rightarrow> filter (\<lambda>c. c \<noteq> CHR ''*'' \<and> c \<noteq> CHR ''_'') line)"

lemma firstDescription_find:
  "firstDescription ls =
     (case find (\<lambda>line. \<not> isSkippedLine line) ls of
        None \<Rightarrow> []
      | Some line \<Rightarrow> trim (filter (\<lambda>c. \<not> isEmphasisNoise c) line))"
  by (induction ls) (simp_all add: isSkippedLine_def)




text \<open>
  Claim C5, as the code has it.  When the front-matter description is a string that is not
  empty after trimming, the description is that trimmed string.  Otherwise it is taken
  from the body: the lines are trimmed, the empty ones dropped, and the first line that
  does not start with \<open>#\<close>, \<open>![\<close>, \<open>---\<close> or three backquotes is returned with every
  character of the class \<open>* _ ` > # -\<close> removed and the result trimmed; there being no such
  line, the description is empty.
\<close>

theorem docDescription_cases:
  "(trim s \<noteq> [] \<longrightarrow> docDescription (FmString s) content = trim s) \<and>
   (metaDescription = FmOther \<or> (\<exists>d. metaDescription = FmDate d) \<or>
    (\<exists>s. metaDescription = FmString s \<and> trim s = []) \<longrightarrow>
      docDescription metaDescription content =
        (case find (\<lambda>line. \<not> isSkippedLine line)
                (filter (\<lambda>line. line \<noteq> []) (map trim (splitOn (CHR 0x0A) content))) of
           None \<Rightarrow> []
         | Some line \<Rightarrow> trim (filter (\<lambda>c. \<not> isEmphasisNoise c) line)))"
  by (auto simp: docDescription_def getDescriptionFromContent_def firstDescription_find)

definition bodyExample :: string where
  "bodyExample = ''# Title'' @ [CHR 0x0A, CHR 0x0A] @ ''  ![img](x.png)'' @ [CHR 0x0A] @
     ''A **well-known** fact  ''"

theorem docDescription_cases_witness:
  "trim '' Short summary '' \<noteq> [] \<and>
   docDescription (FmString '' Short summary '') bodyExample = ''Short summary'' \<and>
   trim ''   '' = [] \<and>
   docDescription (FmString ''   '') bodyExample = ''A wellknown fact'' \<and>
   docDescription FmOther bodyExample = ''A wellknown fact''"
proof -
  have t1: "trim '' Short summary '' = ''Short summary''"
    by code_simp
  have t2: "trim ''   '' = []"
    by code_simp
  have f: "(case find (\<lambda>line. \<not> isSkippedLine line)
                (filter (\<lambda>line. line \<noteq> []) (map trim (splitOn (CHR 0x0A) bodyExample))) of
           None \<Rightarrow> []
         | Some line \<Rightarrow> trim (filter (\<lambda>c. \<not> isEmphasisNoise c) line)) = ''A wellknown fact''"
    unfolding bodyExample_def by code_simp
  from docDescription_cases [of "'' Short summary ''" bodyExample FmOther] t1 f
  have c1: "docDescription (FmString '' Short summary '') bodyExample = ''Short summary''"
    and c3: "docDescription FmOther bodyExample = ''A wellknown fact''"
    by simp_all
  from docDescription_cases [of "[]" bodyExample "FmString ''   ''"] t2 f
  have c2: "docDescription (FmString ''   '') bodyExample = ''A wellknown fact''"
    by simp
  from t1 t2 c1 c2 c3 show ?thesis
    by simp
qed

theorem docDescription_hyphen_counterexample:
  "docDescription FmOther ''A well-known fact'' = ''A wellknown fact'' \<and>
   specDescriptionFromContent ''A well-known fact'' = ''A well-known fact'' \<and>
   docDescription FmOther ''A well-known fact'' \<noteq> specDescriptionFromContent ''A well-known fact''"
proof -
  have c: "docDescription FmOther ''A well-known fact'' = ''A wellknown fact''"
    by code_simp
  have s: "specDescriptionFromContent ''A well-known fact'' = ''A well-known fact''"
    by code_simp
  show ?thesis
    unfolding c s by simp
qed



section \<open>Snapshot cache\<close>

subsection \<open>Version fingerprint\<close>

record DocsVersion =
  fileCount :: real
  maxMtimeMs :: real

text \<open>
  Both fields are JavaScript numbers.  Only exact operations are applied to them
  (adding one, adding counts, the maximum, equality), so they are modelled as reals.
\<close>

datatype fsEntry =
    FileEntry string real
  | DirEntry string "fsEntry list"

text \<open>
  What \<open>readdirSync\<close> and \<open>statSync\<close> show below the content root: an entry that is not a
  directory, with its name and \<open>mtimeMs\<close>, or a directory with its name and entries.
\<close>

fun versionLoop :: "fsEntry list \<Rightarrow> real \<Rightarrow> real \<Rightarrow> DocsVersion" where
  \<comment> \<open>the loop of \<open>computeDocsVersion\<close> over \<open>entries\<close>, with the two counters\<close>
  "versionLoop [] fc mx = \<lparr>fileCount = fc, maxMtimeMs = mx\<rparr>"
| "versionLoop (DirEntry name children # rest) fc mx =
     (let child = versionLoop children 0 0
      in versionLoop rest (fc + fileCount child) (max mx (maxMtimeMs child)))"
| "versionLoop (FileEntry name mtimeMs # rest) fc mx =
     versionLoop rest (fc + 1) (max mx mtimeMs)"

definition computeDocsVersion :: "fsEntry list \<Rightarrow> DocsVersion" where
  "computeDocsVersion entries = versionLoop entries 0 0"

definition isSameDocsVersion :: "DocsVersion \<Rightarrow> DocsVersion \<Rightarrow> bool" where
  "isSameDocsVersion left right =
     (fileCount left = fileCount right \<and> maxMtimeMs left = maxMtimeMs right)"

subsection \<open>The persisted snapshot\<close>

datatype jsNumber = Finite real | PosInfinity | NegInfinity

datatype json =
    JNull
  | JBool bool
  | JNumber jsNumber
  | JString string
  | JArray "json list"
  | JObject "(string \<times> json) list"

text \<open>
  A value as \<open>JSON.parse\<close> returns it (a number too large for a double is parsed as an
  infinity).  An object is the list of its members in source order; a key written twice
  has its last value.
\<close>

record DocsSnapshot =
  snap_docs :: "json list"
  snap_slugs :: "json list"
  snap_tree :: "json list"
  snap_searchEntries :: "json list"

text \<open>
  The four arrays of a snapshot are modelled by their JSON values, as
  \<open>JSON.stringify\<close> writes them and \<open>JSON.parse\<close> reads them; the cache never looks inside.
\<close>

datatype snapshotFile =
    FileMissing
  | FileUnreadable
  | FileNotJson
  | FileJson json

text \<open>
  The state of the snapshot file: \<open>existsSync\<close> is false; \<open>readFileSync\<close> throws;
  \<open>JSON.parse\<close> throws; or the file parses to a value.
\<close>

definition SNAPSHOT_SCHEMA_VERSION :: real where
  "SNAPSHOT_SCHEMA_VERSION = 2"

definition getProp :: "json \<Rightarrow> string \<Rightarrow> jsError + json option" where
  \<comment> \<open>\<open>value.key\<close> for the keys used here: a \<open>TypeError\<close> on null, \<open>undefined\<close> (\<open>None\<close>) on a
      missing key and on a value that is not an object\<close>
  "getProp v k =
     (case v of
        JNull \<Rightarrow> Inl TypeError
      | JObject members \<Rightarrow> Inr (map_of (rev members) k)
      | _ \<Rightarrow> Inr None)"

definition truthy :: "json option \<Rightarrow> bool" where
  "truthy v =
     (case v of
        None \<Rightarrow> False
      | Some JNull \<Rightarrow> False
      | Some (JBool b) \<Rightarrow> b
      | Some (JNumber n) \<Rightarrow> n \<noteq> Finite 0
      | Some (JString s) \<Rightarrow> s \<noteq> []
      | Some (JArray _) \<Rightarrow> True
      | Some (JObject _) \<Rightarrow> True)"

definition finiteNumber :: "json option \<Rightarrow> real option" where
  \<comment> \<open>\<open>Number.isFinite(v)\<close>, with the number\<close>
  "finiteNumber v = (case v of Some (JNumber (Finite r)) \<Rightarrow> Some r | _ \<Rightarrow> None)"

definition arrayOf :: "json option \<Rightarrow> json list option" where
  \<comment> \<open>\<open>Array.isArray(v)\<close>, with the elements\<close>
  "arrayOf v = (case v of Some (JArray xs) \<Rightarrow> Some xs | _ \<Rightarrow> None)"

definition getPersistedSnapshotMeta :: "json \<Rightarrow> jsError + DocsVersion option" where
  \<comment> \<open>the result is the \<open>version\<close> of the returned object (its \<open>schemaVersion\<close> is the
      constant), \<open>None\<close> for null\<close>
  "getPersistedSnapshotMeta snapshot =
     (case getProp snapshot ''__meta'' of
        Inl e \<Rightarrow> Inl e
      | Inr meta \<Rightarrow>
         (if \<not> truthy meta then Inr None
          else case getProp (the meta) ''schemaVersion'' of
            Inl e \<Rightarrow> Inl e
          | Inr schemaVersion \<Rightarrow>
             (if schemaVersion \<noteq> Some (JNumber (Finite SNAPSHOT_SCHEMA_VERSION)) then Inr None
              else case getProp (the meta) ''version'' of
                Inl e \<Rightarrow> Inl e
              | Inr version \<Rightarrow>
                 (if \<not> truthy version then Inr None
                  else case (getProp (the version) ''fileCount'',
                             getProp (the version) ''maxMtimeMs'') of
                    (Inr fc, Inr mt) \<Rightarrow>
                      (case (finiteNumber fc, finiteNumber mt) of
                         (Some c, Some m) \<Rightarrow> Inr (Some \<lparr>fileCount = c, maxMtimeMs = m\<rparr>)
                       | _ \<Rightarrow> Inr None)
                  | (Inl e, _) \<Rightarrow> Inl e
                  | (_, Inl e) \<Rightarrow> Inl e))))"

definition validateParsed :: "DocsVersion \<Rightarrow> json \<Rightarrow> jsError + DocsSnapshot option" where
  \<comment> \<open>the \<open>try\<close> block of \<open>getValidatedSnapshotFromDisk\<close> behind \<open>JSON.parse\<close>\<close>
  "validateParsed expectedVersion parsed =
     (case getPersistedSnapshotMeta parsed of
        Inl e \<Rightarrow> Inl e
      | Inr None \<Rightarrow> Inr None
      | Inr (Some version) \<Rightarrow>
         (if \<not> isSameDocsVersion version expectedVersion then Inr None
          else case (getProp parsed ''docs'', getProp parsed ''tree'',
                     getProp parsed ''slugs'', getProp parsed ''searchEntries'') of
            (Inr d, Inr t, Inr s, Inr e) \<Rightarrow>
              (case (arrayOf d, arrayOf t) of
                 (Some ds, Some ts) \<Rightarrow>
                   Inr (Some \<lparr>snap_docs = ds,
                              snap_slugs = (case arrayOf s of Some xs \<Rightarrow> xs | None \<Rightarrow> []),
                              snap_tree = ts,
                              snap_searchEntries = (case arrayOf e of Some xs \<Rightarrow> xs | None \<Rightarrow> [])\<rparr>)
               | _ \<Rightarrow> Inr None)
          | _ \<Rightarrow> Inl TypeError))"

definition getValidatedSnapshotFromDisk :: "DocsVersion \<Rightarrow> snapshotFile \<Rightarrow> DocsSnapshot option" where
  "getValidatedSnapshotFromDisk expectedVersion file =
     (case file of
        FileMissing \<Rightarrow> None
      | FileUnreadable \<Rightarrow> None
      | FileNotJson \<Rightarrow> None
      | FileJson parsed \<Rightarrow>
         (case validateParsed expectedVersion parsed of
            Inl e \<Rightarrow> None
          | Inr r \<Rightarrow> r))"

definition snapshotPayload :: "string \<Rightarrow> DocsSnapshot \<Rightarrow> DocsVersion \<Rightarrow> json" where
  \<comment> \<open>the constant \<open>payload\<close> of \<open>writeSnapshotToDisk\<close>, as \<open>JSON.parse\<close> reads it back\<close>
  "snapshotPayload createdAt snapshot version =
     JObject
       [(''docs'', JArray (snap_docs snapshot)),
        (''slugs'', JArray (snap_slugs snapshot)),
        (''tree'', JArray (snap_tree snapshot)),
        (''searchEntries'', JArray (snap_searchEntries snapshot)),
        (''__meta'', JObject
           [(''createdAt'', JString createdAt),
            (''schemaVersion'', JNumber (Finite SNAPSHOT_SCHEMA_VERSION)),
            (''version'', JObject
               [(''fileCount'', JNumber (Finite (fileCount version))),
                (''maxMtimeMs'', JNumber (Finite (maxMtimeMs version)))])])]"

record snapshotEnv =
  rootExists :: bool
  rootEntries :: "fsEntry list"
  isProduction :: bool
  builtSnapshot :: DocsSnapshot
  failedWriteLeaves :: "snapshotFile option"
  createdAt :: string

text \<open>
  What one call of \<open>getSnapshot\<close> meets outside the module: whether the content root
  exists and what it holds; whether \<open>NODE_ENV\<close> is \<open>production\<close>; the snapshot that
  \<open>createSnapshot()\<close> builds from the content root as it is (the only code that reads
  document files); whether writing the snapshot file throws (\<open>Some f\<close>, the file being
  left in state \<open>f\<close>) or succeeds (\<open>None\<close>); and the time stamp of the write.
\<close>

record snapshotStore =
  cachedSnapshot :: "DocsSnapshot option"
  cachedVersion :: "DocsVersion option"
  diskFile :: snapshotFile
  rebuilds :: nat

text \<open>
  The two module variables, the snapshot file, and a counter of the calls of
  \<open>createSnapshot()\<close> made so far.
\<close>

definition emptySnapshot :: DocsSnapshot where
  "emptySnapshot = \<lparr>snap_docs = [], snap_slugs = [], snap_tree = [], snap_searchEntries = []\<rparr>"

definition writeSnapshotToDisk ::
  "snapshotEnv \<Rightarrow> DocsSnapshot \<Rightarrow> DocsVersion \<Rightarrow> snapshotFile \<Rightarrow> snapshotFile" where
  \<comment> \<open>the \<open>catch\<close> swallows the error of a failed write\<close>
  "writeSnapshotToDisk env snapshot version file =
     (case failedWriteLeaves env of
        Some left \<Rightarrow> left
      | None \<Rightarrow> FileJson (snapshotPayload (createdAt env) snapshot version))"

definition getSnapshot :: "snapshotEnv \<Rightarrow> snapshotStore \<Rightarrow> DocsSnapshot \<times> snapshotStore" where
  "getSnapshot env st =
     (if \<not> rootExists env then
        (emptySnapshot,
         st\<lparr>cachedSnapshot := Some emptySnapshot,
            cachedVersion := Some \<lparr>fileCount = 0, maxMtimeMs = 0\<rparr>\<rparr>)
      else if \<not> isProduction env then
        (let currentVersion = computeDocsVersion (rootEntries env);
             rebuilt = (builtSnapshot env,
                        st\<lparr>cachedSnapshot := Some (builtSnapshot env),
                           cachedVersion := Some currentVersion,
                           rebuilds := rebuilds st + 1\<rparr>)
         in case (cachedSnapshot st, cachedVersion st) of
              (Some snapshot, Some version) \<Rightarrow>
                if isSameDocsVersion version currentVersion then (snapshot, st) else rebuilt
            | _ \<Rightarrow> rebuilt)
      else
        (case cachedSnapshot st of
           Some snapshot \<Rightarrow> (snapshot, st)
         | None \<Rightarrow>
            (let currentVersion = computeDocsVersion (rootEntries env)
             in case getValidatedSnapshotFromDisk currentVersion (diskFile st) of
                  Some diskSnapshot \<Rightarrow>
                    (diskSnapshot,
                     st\<lparr>cachedSnapshot := Some diskSnapshot,
                        cachedVersion := Some currentVersion\<rparr>)
                | None \<Rightarrow>
                    (builtSnapshot env,
                     st\<lparr>cachedSnapshot := Some (builtSnapshot env),
                        cachedVersion := Some currentVersion,
                        diskFile := writeSnapshotToDisk env (builtSnapshot env) currentVersion
                                      (diskFile st),
                        rebuilds := rebuilds st + 1\<rparr>))))"


definition member :: "json \<Rightarrow> string \<Rightarrow> json \<Rightarrow> bool" where
  \<comment> \<open>the value is an object and has this value under the key\<close>
  "member v k x = (\<exists>members. v = JObject members \<and> map_of (rev members) k = Some x)"

definition arrayOrEmpty :: "json \<Rightarrow> string \<Rightarrow> json list" where
  \<comment> \<open>the elements under the key when there is an array, else none\<close>
  "arrayOrEmpty v k =
     (case v of
        JObject members \<Rightarrow>
          (case map_of (rev members) k of Some (JArray xs) \<Rightarrow> xs | _ \<Rightarrow> [])
      | _ \<Rightarrow> [])"

definition validSnapshotFile :: "DocsVersion \<Rightarrow> snapshotFile \<Rightarrow> DocsSnapshot \<Rightarrow> bool" where
  \<comment> \<open>the file exists and parses as JSON; \<open>__meta\<close> carries the schema version constant
      and a finite fingerprint equal to the expected one; \<open>docs\<close> and \<open>tree\<close> are arrays\<close>
  "validSnapshotFile expected file snap =
     (\<exists>parsed meta version ds ts.
        file = FileJson parsed \<and>
        member parsed ''__meta'' meta \<and>
        member meta ''schemaVersion'' (JNumber (Finite SNAPSHOT_SCHEMA_VERSION)) \<and>
        member meta ''version'' version \<and>
        member version ''fileCount'' (JNumber (Finite (fileCount expected))) \<and>
        member version ''maxMtimeMs'' (JNumber (Finite (maxMtimeMs expected))) \<and>
        member parsed ''docs'' (JArray ds) \<and>
        member parsed ''tree'' (JArray ts) \<and>
        snap = \<lparr>snap_docs = ds, snap_slugs = arrayOrEmpty parsed ''slugs'', snap_tree = ts,
                snap_searchEntries = arrayOrEmpty parsed ''searchEntries''\<rparr>)"

lemma fold_max_max: "fold max xs (max a b) = max a (fold max xs (b :: real))"
proof (induction xs arbitrary: b)
  case Nil
  then show ?case by simp
next
  case (Cons x xs)
  have "max x (max a b) = max a (max x b)"
    by (rule max.left_commute)
  with Cons [of "max x b"] show ?case by simp
qed

lemma fold_max_nonneg: "0 \<le> fold max xs (0 :: real)"
proof -
  have "fold max xs (max 0 0) = max 0 (fold max xs (0 :: real))"
    by (rule fold_max_max)
  then have "fold max xs 0 = max 0 (fold max xs (0 :: real))"
    by simp
  then show ?thesis
    by (metis max.cobounded1)
qed



lemma getProp_Some: "getProp v k = Inr (Some x) \<longleftrightarrow> member v k x"
  by (cases v) (auto simp: getProp_def member_def)

lemma getProp_Inl: "getProp v k = Inl e \<longleftrightarrow> v = JNull \<and> e = TypeError"
  by (cases v) (auto simp: getProp_def)

lemma getProp_cases:
  "getProp v k = Inl TypeError \<and> v = JNull \<or> getProp v k = Inr None \<and> (\<forall>x. \<not> member v k x) \<or>
   (\<exists>x. getProp v k = Inr (Some x) \<and> member v k x)"
  by (cases v) (auto simp: getProp_def member_def)

lemma truthy_member: "member v k x \<Longrightarrow> truthy (Some v)"
  by (auto simp: member_def truthy_def)

lemma finiteNumber_Some: "finiteNumber v = Some r \<longleftrightarrow> v = Some (JNumber (Finite r))"
  by (auto simp: finiteNumber_def split: option.splits json.splits jsNumber.splits)

lemma arrayOf_Some: "arrayOf v = Some xs \<longleftrightarrow> v = Some (JArray xs)"
  by (auto simp: arrayOf_def split: option.splits json.splits)

lemma meta_complete:
  assumes "member parsed ''__meta'' meta"
    and "member meta ''schemaVersion'' (JNumber (Finite SNAPSHOT_SCHEMA_VERSION))"
    and "member meta ''version'' version"
    and "member version ''fileCount'' (JNumber (Finite c))"
    and "member version ''maxMtimeMs'' (JNumber (Finite m))"
  shows "getPersistedSnapshotMeta parsed = Inr (Some \<lparr>fileCount = c, maxMtimeMs = m\<rparr>)"
proof -
  have 1: "getProp parsed ''__meta'' = Inr (Some meta)"
    using assms(1) by (simp add: getProp_Some)
  have 2: "getProp meta ''schemaVersion'' = Inr (Some (JNumber (Finite SNAPSHOT_SCHEMA_VERSION)))"
    using assms(2) by (simp add: getProp_Some)
  have 3: "getProp meta ''version'' = Inr (Some version)"
    using assms(3) by (simp add: getProp_Some)
  have 4: "getProp version ''fileCount'' = Inr (Some (JNumber (Finite c)))"
    using assms(4) by (simp add: getProp_Some)
  have 5: "getProp version ''maxMtimeMs'' = Inr (Some (JNumber (Finite m)))"
    using assms(5) by (simp add: getProp_Some)
  have t: "truthy (Some meta)" "truthy (Some version)"
    using assms(2,4) by (auto dest: truthy_member)
  show ?thesis
    unfolding getPersistedSnapshotMeta_def by (simp add: 1 2 3 4 5 t finiteNumber_def)
qed

lemma meta_sound:
  assumes "getPersistedSnapshotMeta parsed = Inr (Some ver)"
  shows "\<exists>meta version.
     member parsed ''__meta'' meta \<and>
     member meta ''schemaVersion'' (JNumber (Finite SNAPSHOT_SCHEMA_VERSION)) \<and>
     member meta ''version'' version \<and>
     member version ''fileCount'' (JNumber (Finite (fileCount ver))) \<and>
     member version ''maxMtimeMs'' (JNumber (Finite (maxMtimeMs ver)))"
proof -
  from assms obtain mo where 1: "getProp parsed ''__meta'' = Inr mo" and t1: "truthy mo"
    by (auto simp: getPersistedSnapshotMeta_def split: sum.splits if_splits)
  from t1 obtain meta where mo: "mo = Some meta"
    by (cases mo) (auto simp: truthy_def)
  from assms 1 t1 mo
  have 2: "getProp meta ''schemaVersion'' = Inr (Some (JNumber (Finite SNAPSHOT_SCHEMA_VERSION)))"
    by (auto simp: getPersistedSnapshotMeta_def split: sum.splits if_splits)
  from assms 1 t1 mo 2 obtain vo where 3: "getProp meta ''version'' = Inr vo" and t3: "truthy vo"
    by (auto simp: getPersistedSnapshotMeta_def split: sum.splits if_splits)
  from t3 obtain version where vo: "vo = Some version"
    by (cases vo) (auto simp: truthy_def)
  from assms 1 t1 mo 2 3 t3 vo obtain fc mt where
    4: "getProp version ''fileCount'' = Inr fc" and 5: "getProp version ''maxMtimeMs'' = Inr mt"
    and f: "finiteNumber fc = Some (fileCount ver)" "finiteNumber mt = Some (maxMtimeMs ver)"
    by (auto simp: getPersistedSnapshotMeta_def split: sum.splits if_splits option.splits)
  from 1 mo 2 3 vo 4 5 f show ?thesis
    by (auto simp: getProp_Some [symmetric] finiteNumber_Some)
qed

lemma arrayOrEmpty_getProp:
  "getProp parsed k = Inr v \<Longrightarrow>
     (case arrayOf v of Some xs \<Rightarrow> xs | None \<Rightarrow> []) = arrayOrEmpty parsed k"
  by (cases parsed)
    (auto simp: getProp_def arrayOrEmpty_def arrayOf_def split: option.splits json.splits)

lemma validateParsed_sound:
  assumes "validateParsed expected parsed = Inr (Some snap)"
  shows "validSnapshotFile expected (FileJson parsed) snap"
proof -
  from assms obtain ver where m: "getPersistedSnapshotMeta parsed = Inr (Some ver)"
    and same: "isSameDocsVersion ver expected"
    by (auto simp: validateParsed_def split: sum.splits option.splits if_splits)
  from assms m same obtain d t sl e where
    d: "getProp parsed ''docs'' = Inr d" and t: "getProp parsed ''tree'' = Inr t"
    and sl: "getProp parsed ''slugs'' = Inr sl" and e: "getProp parsed ''searchEntries'' = Inr e"
    by (auto simp: validateParsed_def split: sum.splits)
  from assms m same d t sl e obtain ds ts where
    ds: "arrayOf d = Some ds" and ts: "arrayOf t = Some ts"
    and snap: "snap = \<lparr>snap_docs = ds,
                 snap_slugs = (case arrayOf sl of Some xs \<Rightarrow> xs | None \<Rightarrow> []),
                 snap_tree = ts,
                 snap_searchEntries = (case arrayOf e of Some xs \<Rightarrow> xs | None \<Rightarrow> [])\<rparr>"
    by (auto simp: validateParsed_def split: option.splits)
  from meta_sound [OF m] obtain meta version where
    ms: "member parsed ''__meta'' meta"
      "member meta ''schemaVersion'' (JNumber (Finite SNAPSHOT_SCHEMA_VERSION))"
      "member meta ''version'' version"
      "member version ''fileCount'' (JNumber (Finite (fileCount ver)))"
      "member version ''maxMtimeMs'' (JNumber (Finite (maxMtimeMs ver)))"
    by blast
  from same have eq: "fileCount ver = fileCount expected" "maxMtimeMs ver = maxMtimeMs expected"
    by (simp_all add: isSameDocsVersion_def)
  have md: "member parsed ''docs'' (JArray ds)" and mt: "member parsed ''tree'' (JArray ts)"
    using d t ds ts by (simp_all add: arrayOf_Some getProp_Some [symmetric])
  have snap': "snap = \<lparr>snap_docs = ds, snap_slugs = arrayOrEmpty parsed ''slugs'', snap_tree = ts,
                snap_searchEntries = arrayOrEmpty parsed ''searchEntries''\<rparr>"
    unfolding snap arrayOrEmpty_getProp [OF sl] arrayOrEmpty_getProp [OF e] ..
  show ?thesis
    unfolding validSnapshotFile_def using ms md mt snap' unfolding eq by blast
qed

lemma validateParsed_complete:
  assumes "validSnapshotFile expected (FileJson parsed) snap"
  shows "validateParsed expected parsed = Inr (Some snap)"
proof -
  from assms obtain meta version ds ts where
    ms: "member parsed ''__meta'' meta"
      "member meta ''schemaVersion'' (JNumber (Finite SNAPSHOT_SCHEMA_VERSION))"
      "member meta ''version'' version"
      "member version ''fileCount'' (JNumber (Finite (fileCount expected)))"
      "member version ''maxMtimeMs'' (JNumber (Finite (maxMtimeMs expected)))"
    and md: "member parsed ''docs'' (JArray ds)" and mt: "member parsed ''tree'' (JArray ts)"
    and snap: "snap = \<lparr>snap_docs = ds, snap_slugs = arrayOrEmpty parsed ''slugs'', snap_tree = ts,
                snap_searchEntries = arrayOrEmpty parsed ''searchEntries''\<rparr>"
    unfolding validSnapshotFile_def by blast
  have m: "getPersistedSnapshotMeta parsed =
      Inr (Some \<lparr>fileCount = fileCount expected, maxMtimeMs = maxMtimeMs expected\<rparr>)"
    using ms by (rule meta_complete)
  have d: "getProp parsed ''docs'' = Inr (Some (JArray ds))"
    and t: "getProp parsed ''tree'' = Inr (Some (JArray ts))"
    using md mt by (simp_all add: getProp_Some)
  from md obtain members where obj: "parsed = JObject members"
    by (auto simp: member_def)
  then obtain sl e where sl: "getProp parsed ''slugs'' = Inr sl"
    and e: "getProp parsed ''searchEntries'' = Inr e"
    by (simp add: getProp_def)
  show ?thesis
    unfolding validateParsed_def snap
      arrayOrEmpty_getProp [OF sl, symmetric] arrayOrEmpty_getProp [OF e, symmetric]
    by (simp add: m d t sl e isSameDocsVersion_def arrayOf_def)
qed

lemma getValidatedSnapshotFromDisk_iff:
  "getValidatedSnapshotFromDisk expected sf = Some snap \<longleftrightarrow>
     validSnapshotFile expected sf snap"
proof (cases sf)
  case (FileJson parsed)
  show ?thesis
  proof
    assume "getValidatedSnapshotFromDisk expected sf = Some snap"
    with FileJson have "validateParsed expected parsed = Inr (Some snap)"
      by (auto simp: getValidatedSnapshotFromDisk_def split: sum.splits)
    then show "validSnapshotFile expected sf snap"
      unfolding FileJson by (rule validateParsed_sound)
  next
    assume "validSnapshotFile expected sf snap"
    then have "validateParsed expected parsed = Inr (Some snap)"
      unfolding FileJson by (rule validateParsed_complete)
    then show "getValidatedSnapshotFromDisk expected sf = Some snap"
      by (simp add: getValidatedSnapshotFromDisk_def FileJson)
  qed
qed (simp_all add: getValidatedSnapshotFromDisk_def validSnapshotFile_def)

definition snapshotA :: DocsSnapshot where
  "snapshotA = \<lparr>snap_docs = [JString ''a''], snap_slugs = [], snap_tree = [JString ''ta''],
     snap_searchEntries = []\<rparr>"

definition snapshotB :: DocsSnapshot where
  "snapshotB = \<lparr>snap_docs = [JString ''b''], snap_slugs = [], snap_tree = [JString ''tb''],
     snap_searchEntries = []\<rparr>"

definition fiveFiles :: "fsEntry list" where
  "fiveFiles =
     [FileEntry ''a.md'' 100, FileEntry ''b.md'' 200,
      DirEntry ''sub'' [FileEntry ''c.md'' 1000, FileEntry ''d.png'' 3, FileEntry ''e.md'' 7]]"


definition productionEnv :: snapshotEnv where
  "productionEnv = \<lparr>rootExists = True, rootEntries = fiveFiles, isProduction = True,
     builtSnapshot = snapshotB, failedWriteLeaves = Some FileNotJson, createdAt = ''now''\<rparr>"


definition coldStore :: "snapshotFile \<Rightarrow> snapshotStore" where
  "coldStore f = \<lparr>cachedSnapshot = None, cachedVersion = None, diskFile = f, rebuilds = 0\<rparr>"

lemma fiveFiles_version: "computeDocsVersion fiveFiles = \<lparr>fileCount = 5, maxMtimeMs = 1000\<rparr>"
  by (simp add: computeDocsVersion_def fiveFiles_def)



lemma getSnapshot_production_cold:
  assumes "rootExists env" "isProduction env" "cachedSnapshot st = None"
  shows "getSnapshot env st =
     (case getValidatedSnapshotFromDisk (computeDocsVersion (rootEntries env)) (diskFile st) of
        Some diskSnapshot \<Rightarrow>
          (diskSnapshot,
           st\<lparr>cachedSnapshot := Some diskSnapshot,
              cachedVersion := Some (computeDocsVersion (rootEntries env))\<rparr>)
      | None \<Rightarrow>
          (builtSnapshot env,
           st\<lparr>cachedSnapshot := Some (builtSnapshot env),
              cachedVersion := Some (computeDocsVersion (rootEntries env)),
              diskFile := writeSnapshotToDisk env (builtSnapshot env)
                            (computeDocsVersion (rootEntries env)) (diskFile st),
              rebuilds := rebuilds st + 1\<rparr>))"
  using assms by (simp add: getSnapshot_def Let_def)

text \<open>
  Claim C9.  Loading the persisted snapshot yields a snapshot exactly when the file exists
  and parses as JSON, its \<open>__meta\<close> carries the schema version constant and a finite
  fingerprint equal to the one just computed, and \<open>docs\<close> and \<open>tree\<close> are arrays; a
  missing file, a read error and a parse error are misses.  On a cold access in
  production mode a miss falls back to a full build (one call of \<open>createSnapshot\<close>), a hit
  uses the loaded snapshot without building, and in both cases the snapshot returned and
  cached does not depend on whether writing the snapshot file fails.
\<close>

theorem persisted_snapshot_soft_miss:
  "(getValidatedSnapshotFromDisk expected sf = Some snap \<longleftrightarrow> validSnapshotFile expected sf snap) \<and>
   getValidatedSnapshotFromDisk expected FileMissing = None \<and>
   getValidatedSnapshotFromDisk expected FileUnreadable = None \<and>
   getValidatedSnapshotFromDisk expected FileNotJson = None \<and>
   (rootExists env \<and> isProduction env \<and> cachedSnapshot st = None \<longrightarrow>
      (let current = computeDocsVersion (rootEntries env);
           loaded = getValidatedSnapshotFromDisk current (diskFile st);
           result = (case loaded of Some s \<Rightarrow> s | None \<Rightarrow> builtSnapshot env);
           after = snd (getSnapshot (env\<lparr>failedWriteLeaves := w\<rparr>) st)
       in fst (getSnapshot (env\<lparr>failedWriteLeaves := w\<rparr>) st) = result \<and>
          cachedSnapshot after = Some result \<and>
          cachedVersion after = Some current \<and>
          rebuilds after = rebuilds st + (if loaded = None then 1 else 0)))"
proof (intro conjI)
  show "getValidatedSnapshotFromDisk expected sf = Some snap \<longleftrightarrow>
      validSnapshotFile expected sf snap"
    by (rule getValidatedSnapshotFromDisk_iff)
next
  show "rootExists env \<and> isProduction env \<and> cachedSnapshot st = None \<longrightarrow>
      (let current = computeDocsVersion (rootEntries env);
           loaded = getValidatedSnapshotFromDisk current (diskFile st);
           result = (case loaded of Some s \<Rightarrow> s | None \<Rightarrow> builtSnapshot env);
           after = snd (getSnapshot (env\<lparr>failedWriteLeaves := w\<rparr>) st)
       in fst (getSnapshot (env\<lparr>failedWriteLeaves := w\<rparr>) st) = result \<and>
          cachedSnapshot after = Some result \<and>
          cachedVersion after = Some current \<and>
          rebuilds after = rebuilds st + (if loaded = None then 1 else 0))"
  proof
    assume a: "rootExists env \<and> isProduction env \<and> cachedSnapshot st = None"
    let ?env = "env\<lparr>failedWriteLeaves := w\<rparr>"
    have "rootExists ?env" "isProduction ?env" "cachedSnapshot st = None"
      using a by simp_all
    from getSnapshot_production_cold [OF this]
    show "let current = computeDocsVersion (rootEntries env);
           loaded = getValidatedSnapshotFromDisk current (diskFile st);
           result = (case loaded of Some s \<Rightarrow> s | None \<Rightarrow> builtSnapshot env);
           after = snd (getSnapshot (env\<lparr>failedWriteLeaves := w\<rparr>) st)
       in fst (getSnapshot (env\<lparr>failedWriteLeaves := w\<rparr>) st) = result \<and>
          cachedSnapshot after = Some result \<and>
          cachedVersion after = Some current \<and>
          rebuilds after = rebuilds st + (if loaded = None then 1 else 0)"
      by (cases "getValidatedSnapshotFromDisk (computeDocsVersion (rootEntries env)) (diskFile st)")
        (simp_all add: Let_def)
  qed
qed (simp_all add: getValidatedSnapshotFromDisk_def)

lemma payload_valid:
  "validSnapshotFile v (FileJson (snapshotPayload c s v)) s"
  unfolding validSnapshotFile_def snapshotPayload_def member_def arrayOrEmpty_def
  by (cases s) simp

theorem persisted_snapshot_soft_miss_witness:
  "rootExists productionEnv \<and> isProduction productionEnv \<and>
   cachedSnapshot (coldStore FileNotJson) = None \<and>
   fst (getSnapshot productionEnv (coldStore FileNotJson)) = snapshotB \<and>
   fst (getSnapshot (productionEnv\<lparr>failedWriteLeaves := None\<rparr>) (coldStore FileNotJson)) = snapshotB \<and>
   rebuilds (snd (getSnapshot productionEnv (coldStore FileNotJson))) = 1 \<and>
   getValidatedSnapshotFromDisk \<lparr>fileCount = 5, maxMtimeMs = 1000\<rparr>
     (FileJson (snapshotPayload ''then'' snapshotA \<lparr>fileCount = 5, maxMtimeMs = 1000\<rparr>)) = Some snapshotA \<and>
   fst (getSnapshot productionEnv
     (coldStore (FileJson (snapshotPayload ''then'' snapshotA \<lparr>fileCount = 5, maxMtimeMs = 1000\<rparr>))))
     = snapshotA \<and>
   fst (getSnapshot productionEnv
     (coldStore (FileJson (snapshotPayload ''then'' snapshotA \<lparr>fileCount = 5, maxMtimeMs = 999\<rparr>))))
     = snapshotB"
proof -
  let ?v = "\<lparr>fileCount = 5, maxMtimeMs = 1000\<rparr>"
  let ?good = "FileJson (snapshotPayload ''then'' snapshotA ?v)"
  let ?stale = "FileJson (snapshotPayload ''then'' snapshotA \<lparr>fileCount = 5, maxMtimeMs = 999\<rparr>)"
  have e: "rootExists productionEnv" "isProduction productionEnv"
    "rootEntries productionEnv = fiveFiles" "builtSnapshot productionEnv = snapshotB"
    "productionEnv\<lparr>failedWriteLeaves := Some FileNotJson\<rparr> = productionEnv"
    by (simp_all add: productionEnv_def)
  have c: "cachedSnapshot (coldStore f) = None" "diskFile (coldStore f) = f"
    "rebuilds (coldStore f) = 0" for f
    by (simp_all add: coldStore_def)
  note T = persisted_snapshot_soft_miss
  have good: "getValidatedSnapshotFromDisk ?v ?good = Some snapshotA"
    using T [of ?v ?good snapshotA productionEnv "coldStore ?good" None] payload_valid
    by blast
  have stale: "getValidatedSnapshotFromDisk ?v ?stale = None"
    by (simp add: getValidatedSnapshotFromDisk_def validateParsed_def
        getPersistedSnapshotMeta_def snapshotPayload_def getProp_def truthy_def
        finiteNumber_def isSameDocsVersion_def)
  have miss: "getValidatedSnapshotFromDisk ?v FileNotJson = None"
    using T [of ?v FileNotJson snapshotA productionEnv "coldStore FileNotJson" None] by blast
  from T [of ?v FileNotJson snapshotA productionEnv "coldStore FileNotJson" "Some FileNotJson"]
    e c miss
  have r1: "fst (getSnapshot productionEnv (coldStore FileNotJson)) = snapshotB"
    and r2: "rebuilds (snd (getSnapshot productionEnv (coldStore FileNotJson))) = 1"
    by (simp_all add: fiveFiles_version Let_def)
  from T [of ?v FileNotJson snapshotA productionEnv "coldStore FileNotJson" None] e c miss
  have r3: "fst (getSnapshot (productionEnv\<lparr>failedWriteLeaves := None\<rparr>) (coldStore FileNotJson))
      = snapshotB"
    by (simp add: fiveFiles_version Let_def)
  from T [of ?v ?good snapshotA productionEnv "coldStore ?good" "Some FileNotJson"] e c good
  have r4: "fst (getSnapshot productionEnv (coldStore ?good)) = snapshotA"
    by (simp add: fiveFiles_version Let_def)
  from T [of ?v ?stale snapshotA productionEnv "coldStore ?stale" "Some FileNotJson"] e c stale
  have r5: "fst (getSnapshot productionEnv (coldStore ?stale)) = snapshotB"
    by (simp add: fiveFiles_version Let_def)
  from e(1,2) c(1) r1 r2 r3 r4 r5 good show ?thesis
    by (intro conjI)
qed



section \<open>Document tree\<close>

datatype DocTreeNode =
    is_folder: Folder (nodeName: string) (nodeKey: string) (children: "DocTreeNode list")
  | FileNode (nodeName: string) (nodeKey: string) (fileRelPath: string)
      (fileSlug: "string list") (fileTitle: string)

subsection \<open>Sorting\<close>

text \<open>
  \<open>localeCompare(other, "zh-CN")\<close> is the collation of the runtime's internationalisation
  library.  It is taken as a parameter: a function \<open>ck\<close> that gives every string its
  collation key, in a linear order; two strings compare as their keys do.
\<close>

definition localeCompare :: "(string \<Rightarrow> 'k::linorder) \<Rightarrow> string \<Rightarrow> string \<Rightarrow> int" where
  "localeCompare ck a b = (if ck a < ck b then - 1 else if ck a = ck b then 0 else 1)"

definition compareNodes :: "(string \<Rightarrow> 'k::linorder) \<Rightarrow> DocTreeNode \<Rightarrow> DocTreeNode \<Rightarrow> int" where
  \<comment> \<open>the comparator of \<open>sortTree\<close>\<close>
  "compareNodes ck a b =
     (if is_folder a \<noteq> is_folder b then (if is_folder a then - 1 else 1)
      else localeCompare ck (nodeName a) (nodeName b))"

fun insertSorted :: "('a \<Rightarrow> 'a \<Rightarrow> int) \<Rightarrow> 'a \<Rightarrow> 'a list \<Rightarrow> 'a list" where
  "insertSorted cmp x [] = [x]"
| "insertSorted cmp x (y # ys) =
     (if cmp x y \<le> 0 then x # y # ys else y # insertSorted cmp x ys)"

fun stableSort :: "('a \<Rightarrow> 'a \<Rightarrow> int) \<Rightarrow> 'a list \<Rightarrow> 'a list" where
  \<comment> \<open>\<open>Array.prototype.sort(cmp)\<close>, which is stable: an insertion sort that puts every
      element in front of the later elements it does not exceed\<close>
  "stableSort cmp [] = []"
| "stableSort cmp (x # xs) = insertSorted cmp x (stableSort cmp xs)"

lemma set_insertSorted: "set (insertSorted cmp x xs) = insert x (set xs)"
  by (induction xs) auto

lemma set_stableSort: "set (stableSort cmp xs) = set xs"
  by (induction xs) (auto simp: set_insertSorted)

lemma size_children_le:
  "Folder name key cs \<in> set ns \<Longrightarrow> size_list size cs < size_list size ns"
  by (induction ns) auto

function sortTree :: "(string \<Rightarrow> 'k::linorder) \<Rightarrow> DocTreeNode list \<Rightarrow> DocTreeNode list" where
  "sortTree ck nodes =
     map (\<lambda>node. case node of
                   Folder name key cs \<Rightarrow> Folder name key (sortTree ck cs)
                 | FileNode name key rp sl ti \<Rightarrow> FileNode name key rp sl ti)
       (stableSort (compareNodes ck) nodes)"
  by pat_completeness auto
termination
proof (relation "measure (\<lambda>(ck, nodes). size_list size nodes)")
  show "wf (measure (\<lambda>(ck, nodes). size_list size nodes))"
    by simp
next
  fix ck :: "string \<Rightarrow> 'k::linorder" and nodes node name key cs
  assume "node \<in> set (stableSort (compareNodes ck) nodes)" and "node = Folder name key cs"
  then have "Folder name key cs \<in> set nodes"
    by (simp add: set_stableSort)
  from size_children_le [OF this]
  show "((ck, cs), (ck, nodes)) \<in> measure (\<lambda>(ck, nodes). size_list size nodes)"
    by simp
qed

declare sortTree.simps [simp del]

subsection \<open>Building\<close>

fun descend ::
  "string \<Rightarrow> (DocTreeNode list \<Rightarrow> DocTreeNode list) \<Rightarrow> DocTreeNode list \<Rightarrow> DocTreeNode list option"
where
  \<comment> \<open>\<open>currentLevel.find(folder named segment)\<close>, then the rest of the walk inside the
      children of the folder found; \<open>None\<close> when \<open>find\<close> returns \<open>undefined\<close>\<close>
  "descend segment inside [] = None"
| "descend segment inside (node # rest) =
     (if is_folder node \<and> nodeName node = segment
      then Some (Folder (nodeName node) (nodeKey node) (inside (children node)) # rest)
      else map_option (\<lambda>r. node # r) (descend segment inside rest))"

primrec insertFile ::
  "string list \<Rightarrow> string \<Rightarrow> DocTreeNode \<Rightarrow> DocTreeNode list \<Rightarrow> DocTreeNode list" where
  \<comment> \<open>the inner loop of \<open>buildDocsTree\<close> over \<open>folderSegments\<close> and the final \<open>push\<close> of
      the file node, from \<open>currentLevel\<close> on, with \<open>accumulatedPath\<close>\<close>
  "insertFile [] accumulatedPath fileNode currentLevel = currentLevel @ [fileNode]"
| "insertFile (segment # rest) accumulatedPath fileNode currentLevel =
     (let path = (if accumulatedPath \<noteq> [] then accumulatedPath @ ''/'' @ segment else segment)
      in case descend segment (insertFile rest path fileNode) currentLevel of
           Some level \<Rightarrow> level
         | None \<Rightarrow> currentLevel @ [Folder segment path (insertFile rest path fileNode [])])"

definition docFileNode :: "DocRecord \<Rightarrow> DocTreeNode" where
  "docFileNode doc =
     (let segments = splitOn CHR ''/'' (relPath doc);
          fileName = (if segments = [] then title doc else last segments)
      in FileNode fileName (relPath doc) (relPath doc) (slug doc) (title doc))"

definition addDoc :: "DocTreeNode list \<Rightarrow> DocRecord \<Rightarrow> DocTreeNode list" where
  \<comment> \<open>one round of the outer loop of \<open>buildDocsTree\<close>\<close>
  "addDoc rootLevel doc =
     insertFile (butlast (splitOn CHR ''/'' (relPath doc))) [] (docFileNode doc) rootLevel"

definition buildDocsTree :: "(string \<Rightarrow> 'k::linorder) \<Rightarrow> DocRecord list \<Rightarrow> DocTreeNode list" where
  "buildDocsTree ck docs = sortTree ck (foldl addDoc [] docs)"

definition codeUnitOrder :: "string \<Rightarrow> nat list" where
  \<comment> \<open>a collation for examples: strings compared code unit by code unit\<close>
  "codeUnitOrder s = map of_char s"

definition mkDoc :: "string \<Rightarrow> string \<Rightarrow> DocRecord" where
  "mkDoc p t = \<lparr>relPath = p, slug = splitOn CHR ''/'' (stripDocExtension p), title = t,
     description = [], date = [], contentHtml = [], headings = []\<rparr>"

subsection \<open>Properties of the sort\<close>

definition sortKey :: "(string \<Rightarrow> 'k::linorder) \<Rightarrow> DocTreeNode \<Rightarrow> nat \<times> 'k" where
  \<comment> \<open>the comparator of \<open>sortTree\<close> as a key: the kind first, then the collation key of
      the name\<close>
  "sortKey ck node = (if is_folder node then 0 else 1, ck (nodeName node))"

fun leaves :: "DocTreeNode list \<Rightarrow> (string list \<times> DocTreeNode) list" where
  \<comment> \<open>the file nodes of a tree, each with the names of the folders above it\<close>
  "leaves [] = []"
| "leaves (FileNode name key rp sl ti # rest) = ([], FileNode name key rp sl ti) # leaves rest"
| "leaves (Folder name key cs # rest) = map (\<lambda>(p, f). (name # p, f)) (leaves cs) @ leaves rest"

definition joinPath :: "string \<Rightarrow> string \<Rightarrow> string" where
  \<comment> \<open>the update of \<open>accumulatedPath\<close>\<close>
  "joinPath acc segment = (if acc \<noteq> [] then acc @ ''/'' @ segment else segment)"

fun below :: "(DocTreeNode list \<Rightarrow> bool) \<Rightarrow> string \<Rightarrow> DocTreeNode list \<Rightarrow> bool" where
  \<comment> \<open>every folder below carries the key of its path, holds a file somewhere below it,
      and its children satisfy \<open>L\<close>\<close>
  "below L acc [] = True"
| "below L acc (FileNode name key rp sl ti # rest) = below L acc rest"
| "below L acc (Folder name key cs # rest) =
     (key = joinPath acc name \<and> leaves cs \<noteq> [] \<and> L cs \<and> below L (joinPath acc name) cs \<and>
      below L acc rest)"







lemma compareNodes_le: "compareNodes ck a b \<le> 0 \<longleftrightarrow> sortKey ck a \<le> sortKey ck b"
  by (auto simp: compareNodes_def localeCompare_def sortKey_def less_eq_prod_def)

lemma insertSorted_insort:
  "insertSorted (compareNodes ck) x xs = insort_key (sortKey ck) x xs"
  by (induction xs) (simp_all add: compareNodes_le)

lemma stableSort_sort_key: "stableSort (compareNodes ck) xs = sort_key (sortKey ck) xs"
  by (induction xs) (simp_all add: insertSorted_insort)

lemma leaves_iff:
  "(p, f) \<in> set (leaves ns) \<longleftrightarrow>
     (p = [] \<and> f \<in> set ns \<and> \<not> is_folder f) \<or>
     (\<exists>n q k cs. p = n # q \<and> Folder n k cs \<in> set ns \<and> (q, f) \<in> set (leaves cs))"
proof (induction ns rule: leaves.induct)
  case 1
  then show ?case by simp
next
  case (2 name key rp sl ti rest)
  then show ?case by auto
next
  case (3 name key cs rest)
  have "(p, f) \<in> set (leaves (Folder name key cs # rest)) \<longleftrightarrow>
      (\<exists>q. p = name # q \<and> (q, f) \<in> set (leaves cs)) \<or> (p, f) \<in> set (leaves rest)"
    by auto
  also have "\<dots> \<longleftrightarrow>
      (\<exists>q. p = name # q \<and> (q, f) \<in> set (leaves cs)) \<or>
      (p = [] \<and> f \<in> set rest \<and> \<not> is_folder f) \<or>
      (\<exists>n q k cs'. p = n # q \<and> Folder n k cs' \<in> set rest \<and> (q, f) \<in> set (leaves cs'))"
    using "3.IH"(2) by simp
  also have "\<dots> \<longleftrightarrow>
      (p = [] \<and> f \<in> set (Folder name key cs # rest) \<and> \<not> is_folder f) \<or>
      (\<exists>n q k cs'. p = n # q \<and> Folder n k cs' \<in> set (Folder name key cs # rest) \<and>
         (q, f) \<in> set (leaves cs'))"
    by auto
  finally show ?case .
qed

lemma leaves_set_cong: "set ns = set ms \<Longrightarrow> set (leaves ns) = set (leaves ms)"
proof -
  assume eq: "set ns = set ms"
  have "(p, f) \<in> set (leaves ns) \<longleftrightarrow> (p, f) \<in> set (leaves ms)" for p f
    unfolding leaves_iff [of p f ns] leaves_iff [of p f ms] eq ..
  then show ?thesis by auto
qed

lemma all_folders_Cons_Folder:
  "(\<forall>n k c. Folder n k c \<in> set (Folder name key cs # ns) \<longrightarrow> Q n k c) \<longleftrightarrow>
     Q name key cs \<and> (\<forall>n k c. Folder n k c \<in> set ns \<longrightarrow> Q n k c)"
  by auto

lemma all_folders_Cons_FileNode:
  "(\<forall>n k c. Folder n k c \<in> set (FileNode name key rp sl ti # ns) \<longrightarrow> Q n k c) \<longleftrightarrow>
     (\<forall>n k c. Folder n k c \<in> set ns \<longrightarrow> Q n k c)"
  by auto

lemma below_iff:
  "below L acc ns \<longleftrightarrow>
     (\<forall>n k cs. Folder n k cs \<in> set ns \<longrightarrow>
        k = joinPath acc n \<and> leaves cs \<noteq> [] \<and> L cs \<and> below L (joinPath acc n) cs)"
proof (induction ns)
  case Nil
  then show ?case by simp
next
  case (Cons a ns)
  show ?case
  proof (cases a)
    case (Folder name key cs)
    show ?thesis
      unfolding Folder all_folders_Cons_Folder below.simps Cons.IH by blast
  next
    case (FileNode name key rp sl ti)
    show ?thesis
      unfolding FileNode all_folders_Cons_FileNode below.simps Cons.IH by blast
  qed
qed


lemma below_set_cong: "set ns = set ms \<Longrightarrow> below L acc ns = below L acc ms"
  unfolding below_iff [of L acc ns] below_iff [of L acc ms] by simp




definition sortChild :: "(string \<Rightarrow> 'k::linorder) \<Rightarrow> DocTreeNode \<Rightarrow> DocTreeNode" where
  \<comment> \<open>the body of the loop of \<open>sortTree\<close>\<close>
  "sortChild ck node =
     (case node of
        Folder name key cs \<Rightarrow> Folder name key (sortTree ck cs)
      | FileNode name key rp sl ti \<Rightarrow> FileNode name key rp sl ti)"

lemma sortTree_eq: "sortTree ck ns = map (sortChild ck) (sort_key (sortKey ck) ns)"
proof -
  have "sortChild ck = (\<lambda>node. case node of
                   Folder name key cs \<Rightarrow> Folder name key (sortTree ck cs)
                 | FileNode name key rp sl ti \<Rightarrow> FileNode name key rp sl ti)"
    by (rule ext) (simp add: sortChild_def)
  then show ?thesis
    by (simp add: sortTree.simps [of ck ns] stableSort_sort_key)
qed











subsection \<open>Properties of the insertion\<close>










subsection \<open>Properties of the build\<close>


















definition caselessOrder :: "string \<Rightarrow> nat list" where
  \<comment> \<open>a collation for examples that does not tell upper case from lower case\<close>
  "caselessOrder s = map of_char (toLowerCase s)"

lemma sortChild_simps:
  "sortChild ck (Folder n k cs) = Folder n k (sortTree ck cs)"
  "sortChild ck (FileNode n k rp sl ti) = FileNode n k rp sl ti"
  by (simp_all add: sortChild_def)

lemmas tree_eval = buildDocsTree_def sortTree_eq sortChild_simps addDoc_def docFileNode_def
  mkDoc_def sortKey_def codeUnitOrder_def caselessOrder_def stripDocExtension_def endsWith_def
  toLowerCase_def toLowerChar_def less_eq_prod_def less_prod_def Let_def






lemma buildDocsTree_collation_tie:
  "relPath (mkDoc ''A.md'' ''Upper'') \<noteq> relPath (mkDoc ''a.md'' ''Lower'') \<and>
   buildDocsTree caselessOrder [mkDoc ''A.md'' ''Upper'', mkDoc ''a.md'' ''Lower''] \<noteq>
     buildDocsTree caselessOrder [mkDoc ''a.md'' ''Lower'', mkDoc ''A.md'' ''Upper'']"
proof -
  have a: "buildDocsTree caselessOrder [mkDoc ''A.md'' ''Upper'', mkDoc ''a.md'' ''Lower''] =
     [FileNode ''A.md'' ''A.md'' ''A.md'' [''A''] ''Upper'',
      FileNode ''a.md'' ''a.md'' ''a.md'' [''a''] ''Lower'']"
    by (simp add: tree_eval)
  have b: "buildDocsTree caselessOrder [mkDoc ''a.md'' ''Lower'', mkDoc ''A.md'' ''Upper''] =
     [FileNode ''a.md'' ''a.md'' ''a.md'' [''a''] ''Lower'',
      FileNode ''A.md'' ''A.md'' ''A.md'' [''A''] ''Upper'']"
    by (simp add: tree_eval)
  show ?thesis
    unfolding a b by (simp add: mkDoc_def)
qed

end
